theory Spec2Isabelle
  imports Complex_Main "HOL-Library.Sublist"
begin

section \<open>The network speed indicator of netspeed-monitor@ajxv/extension.js\<close>

text \<open>
  The theory embeds the class \<^verbatim>\<open>NetworkSpeedIndicator\<close> of \<^verbatim>\<open>extension.js\<close>:
  the formatter \<^verbatim>\<open>_formatSpeedValue\<close>, the interface filter \<^verbatim>\<open>_isIgnoredInterface\<close>,
  the parser inside \<^verbatim>\<open>_readNetworkStats\<close>, the rate computation of \<^verbatim>\<open>_updateSpeed\<close>
  and the timer handling of \<^verbatim>\<open>startUpdate\<close> and \<^verbatim>\<open>stopUpdate\<close>.

  Conventions of the model:
  \<^item> A JavaScript number is a \<open>jsnum\<close>: \<open>NaN\<close> or a finite value \<open>Num x\<close> with \<open>x\<close> an
    exact rational. Rounding to binary64, overflow to Infinity, negative zero and the
    exponent notation that \<^verbatim>\<open>toFixed\<close> switches to from \<open>10^21\<close> on are outside the model.
    Every concrete input used below is computed exactly by binary64 as well.
  \<^item> A string is a list of bytes (the UTF-8 text of \<^verbatim>\<open>/proc/net/dev\<close>); white space is
    the ASCII white space (tab, line feed, vertical tab, form feed, carriage return, space).
  \<^item> \<^verbatim>\<open>undefined\<close> is \<open>None\<close> of an option type.
\<close>

subsection \<open>JavaScript numbers\<close>

datatype jsnum = NaN | Num rat

fun js_add :: "jsnum \<Rightarrow> jsnum \<Rightarrow> jsnum" where
  "js_add (Num a) (Num b) = Num (a + b)"
| "js_add _ _ = NaN"

fun js_sub :: "jsnum \<Rightarrow> jsnum \<Rightarrow> jsnum" where
  "js_sub (Num a) (Num b) = Num (a - b)"
| "js_sub _ _ = NaN"

text \<open>Division by one of the source's non-zero constants (3 and 1024).\<close>

fun js_div :: "jsnum \<Rightarrow> rat \<Rightarrow> jsnum" where
  "js_div (Num a) d = Num (a / d)"
| "js_div NaN d = NaN"

text \<open>\<^verbatim>\<open>x >= c\<close>: every comparison with NaN is false.\<close>

fun js_ge :: "jsnum \<Rightarrow> rat \<Rightarrow> bool" where
  "js_ge (Num a) c = (c \<le> a)"
| "js_ge NaN c = False"

text \<open>Truthiness of a number: 0 and NaN are falsy.\<close>

fun truthy :: "jsnum \<Rightarrow> bool" where
  "truthy (Num a) = (a \<noteq> 0)"
| "truthy NaN = False"

text \<open>\<^verbatim>\<open>a ||= b\<close>: the value of \<^verbatim>\<open>a\<close> afterwards.\<close>

definition or_assign :: "jsnum \<Rightarrow> jsnum \<Rightarrow> jsnum" where
  "or_assign a b = (if truthy a then a else b)"

text \<open>ToNumber of a value that may be \<^verbatim>\<open>undefined\<close>.\<close>

fun to_number :: "jsnum option \<Rightarrow> jsnum" where
  "to_number None = NaN"
| "to_number (Some v) = v"

subsection \<open>Decimal digits\<close>

definition digit_char :: "int \<Rightarrow> char" where
  "digit_char d = ''0123456789'' ! nat d"

text \<open>The decimal digits of a non-negative integer.\<close>

function show_nat :: "int \<Rightarrow> string" where
  "show_nat n = (if n < 10 then [digit_char n] else show_nat (n div 10) @ [digit_char (n mod 10)])"
  by pat_completeness auto
termination
  by (relation "measure nat") auto

declare show_nat.simps [simp del]

text \<open>
  \<^verbatim>\<open>Number.prototype.toFixed(1)\<close> (ECMAScript 21.1.3.3 with \<open>f = 1\<close>): NaN prints as
  \<^verbatim>\<open>NaN\<close>; otherwise the sign is split off, \<open>n\<close> is the integer nearest to \<open>10 * x\<close>
  (the larger one on a tie), its digits are padded to two and the point goes before the
  last digit.
\<close>

definition toFixed1 :: "jsnum \<Rightarrow> string" where
  "toFixed1 v =
     (case v of
        NaN \<Rightarrow> ''NaN''
      | Num x \<Rightarrow>
          (let s = (if x < 0 then ''-'' else '''');
               n = \<lfloor>\<bar>x\<bar> * 10 + 1 / 2\<rfloor>;
               m0 = show_nat n;
               m = (if length m0 \<le> 1 then replicate (2 - length m0) (CHR ''0'') @ m0 else m0);
               k = length m
           in s @ take (k - 1) m @ ''.'' @ drop (k - 1) m))"

subsection \<open>\<^verbatim>\<open>_formatSpeedValue\<close>\<close>

definition units :: "string list" where
  "units = [''B/s'', ''KB/s'', ''MB/s'', ''GB/s'']"

text \<open>The \<^verbatim>\<open>while\<close> loop on \<open>(speed, unitIndex)\<close>.\<close>

function scale_loop :: "jsnum \<Rightarrow> nat \<Rightarrow> jsnum \<times> nat" where
  "scale_loop speed unitIndex =
     (if js_ge speed 1024 \<and> unitIndex < length units - 1
      then scale_loop (js_div speed 1024) (unitIndex + 1)
      else (speed, unitIndex))"
  by pat_completeness auto
termination
  by (relation "measure (\<lambda>(speed, unitIndex). length units - 1 - unitIndex)") auto

declare scale_loop.simps [simp del]

definition formatSpeedValue :: "jsnum \<Rightarrow> string" where
  "formatSpeedValue bytes =
     (let (speed, unitIndex) = scale_loop bytes 0
      in toFixed1 speed @ '' '' @ units ! unitIndex)"

subsection \<open>String operations of the parser\<close>

definition is_ws :: "char \<Rightarrow> bool" where
  "is_ws c = (c \<in> set [CHR 0x09, CHR 0x0A, CHR 0x0B, CHR 0x0C, CHR 0x0D, CHR '' ''])"

definition is_digit :: "char \<Rightarrow> bool" where
  "is_digit c = (48 \<le> (of_char c :: nat) \<and> (of_char c :: nat) \<le> 57)"

text \<open>\<^verbatim>\<open>String.prototype.trim\<close>.\<close>

definition trim :: "string \<Rightarrow> string" where
  "trim s = rev (dropWhile is_ws (rev (dropWhile is_ws s)))"

text \<open>\<^verbatim>\<open>s.split(c)\<close> for a one-character separator: always at least one piece.\<close>

fun split_on :: "char \<Rightarrow> string \<Rightarrow> string list" where
  "split_on c [] = [[]]"
| "split_on c (x # xs) =
     (if x = c then [] # split_on c xs
      else (case split_on c xs of [] \<Rightarrow> [[x]] | w # ws \<Rightarrow> (x # w) # ws))"

text \<open>\<^verbatim>\<open>s.split(/\s+/)\<close>: the pieces between maximal runs of white space.\<close>

function split_ws :: "string \<Rightarrow> string list" where
  "split_ws s =
     (let w = takeWhile (\<lambda>c. \<not> is_ws c) s;
          r = dropWhile (\<lambda>c. \<not> is_ws c) s
      in if r = [] then [w] else w # split_ws (dropWhile is_ws r))"
  by pat_completeness auto
termination
proof (relation "measure length", simp, goal_cases)
  case (1 s w r)
  let ?r = "dropWhile (\<lambda>c. \<not> is_ws c) s"
  from 1 have ne: "?r \<noteq> []" by simp
  then have "is_ws (hd ?r)"
    using hd_dropWhile [of "\<lambda>c. \<not> is_ws c" s] by simp
  with ne have a: "length (dropWhile is_ws ?r) = length (dropWhile is_ws (tl ?r))"
    by (cases ?r) simp_all
  have b: "length (dropWhile is_ws (tl ?r)) \<le> length (tl ?r)"
    by (rule length_dropWhile_le)
  have c: "length (tl ?r) < length ?r"
    using ne by (cases ?r) simp_all
  have d: "length ?r \<le> length s"
    by (rule length_dropWhile_le)
  from a b c d have "length (dropWhile is_ws ?r) < length s"
    by linarith
  with 1 show ?case by simp
qed

declare split_ws.simps [simp del]

text \<open>
  \<^verbatim>\<open>parseInt(s, 10)\<close>: leading white space is skipped, one sign is read, and the longest
  run of decimal digits that follows is the value; with no digit the result is NaN.
\<close>

definition digits_val :: "string \<Rightarrow> int" where
  "digits_val ds = foldl (\<lambda>acc c. 10 * acc + (of_char c - 48)) 0 ds"

definition parseInt10 :: "string \<Rightarrow> jsnum" where
  "parseInt10 s =
     (let S = dropWhile is_ws s;
          sign = (if S \<noteq> [] \<and> hd S = CHR ''-'' then - 1 else (1::rat));
          S' = (if S \<noteq> [] \<and> (hd S = CHR ''+'' \<or> hd S = CHR ''-'') then tl S else S);
          Z = takeWhile is_digit S'
      in if Z = [] then NaN else Num (sign * of_int (digits_val Z)))"

subsection \<open>\<^verbatim>\<open>_isIgnoredInterface\<close>\<close>

definition NETWORK_INTERFACES_TO_IGNORE :: "string list" where
  "NETWORK_INTERFACES_TO_IGNORE = [''lo'', ''vir'', ''vbox'', ''docker'', ''br-'']"

definition isIgnoredInterface :: "string \<Rightarrow> bool" where
  "isIgnoredInterface interfaceName =
     list_ex (\<lambda>p. prefix p interfaceName) NETWORK_INTERFACES_TO_IGNORE"

subsection \<open>\<^verbatim>\<open>_readNetworkStats\<close>\<close>

record stats =
  totalRxBytes :: jsnum
  totalTxBytes :: jsnum

text \<open>Reading index \<open>i\<close> of an array: \<^verbatim>\<open>undefined\<close> beyond its end.\<close>

definition element :: "'a list \<Rightarrow> nat \<Rightarrow> 'a option" where
  "element xs i = (if i < length xs then Some (xs ! i) else None)"

text \<open>
  The body of the \<^verbatim>\<open>for\<close> loop up to the destructuring of the fields: \<open>None\<close> where
  the source says \<^verbatim>\<open>continue\<close>, otherwise the values bound to \<^verbatim>\<open>rxBytes\<close> (index 0) and
  \<^verbatim>\<open>txBytes\<close> (index 8).
\<close>

definition parse_line :: "string \<Rightarrow> (jsnum option \<times> jsnum option) option" where
  "parse_line line =
     (let trimmed = trim line
      in if trimmed = [] then None
         else
           (let parts = split_on (CHR '':'') trimmed;
                iface = hd parts;
                data = element parts 1
            in if data = None \<or> data = Some [] \<or> isIgnoredInterface iface then None
               else
                 (let fields = map parseInt10 (split_ws (trim (the data)))
                  in Some (element fields 0, element fields 8))))"

text \<open>One iteration: \<^verbatim>\<open>totalRxBytes += rxBytes; totalTxBytes += txBytes\<close>.\<close>

definition accumulate :: "jsnum \<times> jsnum \<Rightarrow> string \<Rightarrow> jsnum \<times> jsnum" where
  "accumulate totals line =
     (case parse_line line of
        None \<Rightarrow> totals
      | Some (rxBytes, txBytes) \<Rightarrow>
          (js_add (fst totals) (to_number rxBytes), js_add (snd totals) (to_number txBytes)))"

text \<open>
  The completion callback of the read. Its argument is the decoded contents of the file,
  or \<open>None\<close> when \<^verbatim>\<open>load_contents_finish\<close> throws or reports no success. The result is
  \<open>Some stats\<close> for \<^verbatim>\<open>resolve(stats)\<close> and \<open>None\<close> for \<^verbatim>\<open>reject(null)\<close>.
\<close>

definition readNetworkStats :: "string option \<Rightarrow> stats option" where
  "readNetworkStats contents =
     (case contents of
        None \<Rightarrow> None
      | Some text \<Rightarrow>
          (let lines = split_on (CHR 0x0A) text;
               totals = foldl accumulate (Num 0, Num 0) (drop 2 lines)
           in Some \<lparr>totalRxBytes = fst totals, totalTxBytes = snd totals\<rparr>))"

subsection \<open>The indicator and the timers of the main loop\<close>

text \<open>
  The fields of the indicator (\<open>label_text\<close> is its \<^verbatim>\<open>text\<close> property), together with
  what the claims need of the GLib main loop: the identifiers of the timeout sources
  the indicator has added and that are still attached (\<open>sources\<close>), the next identifier
  GLib hands out (identifiers are positive and never reused), and the number of reads
  issued by \<^verbatim>\<open>load_contents_async\<close> whose completion callback has not run yet.
\<close>

record world =
  previousRxBytes :: jsnum
  previousTxBytes :: jsnum
  updateTimer :: "nat option"
  label_text :: string
  sources :: "nat list"
  next_source :: nat
  in_flight :: nat

definition UPDATE_INTERVAL_SECONDS :: rat where
  "UPDATE_INTERVAL_SECONDS = 3"

definition down_arrow :: string where
  "down_arrow = [CHR 0xE2, CHR 0x86, CHR 0x93]"

definition up_arrow :: string where
  "up_arrow = [CHR 0xE2, CHR 0x86, CHR 0x91]"

text \<open>\<^verbatim>\<open>_init\<close>, in a main loop to which the indicator has added nothing yet.\<close>

definition init :: world where
  "init = \<lparr>previousRxBytes = Num 0, previousTxBytes = Num 0, updateTimer = None,
            label_text = down_arrow @ '' 0 B/s '' @ up_arrow @ '' 0 B/s'',
            sources = [], next_source = 1, in_flight = 0\<rparr>"

subsection \<open>\<^verbatim>\<open>_updateSpeed\<close>\<close>

text \<open>The two \<^verbatim>\<open>||=\<close> assignments.\<close>

definition init_previous :: "stats \<Rightarrow> world \<Rightarrow> world" where
  "init_previous st s =
     s\<lparr>previousRxBytes := or_assign (previousRxBytes s) (totalRxBytes st),
       previousTxBytes := or_assign (previousTxBytes s) (totalTxBytes st)\<rparr>"

text \<open>The arguments of the two calls of \<^verbatim>\<open>_formatSpeedValue\<close>.\<close>

definition rxRate :: "stats \<Rightarrow> world \<Rightarrow> jsnum" where
  "rxRate st s = js_div (js_sub (totalRxBytes st) (previousRxBytes s)) UPDATE_INTERVAL_SECONDS"

definition txRate :: "stats \<Rightarrow> world \<Rightarrow> jsnum" where
  "txRate st s = js_div (js_sub (totalTxBytes st) (previousTxBytes s)) UPDATE_INTERVAL_SECONDS"

text \<open>
  \<^verbatim>\<open>_updateSpeed\<close> runs in two parts. Up to the \<^verbatim>\<open>await\<close> it issues the read. When the
  read completes, the rest runs with the outcome of \<^verbatim>\<open>_readNetworkStats\<close>: a rejection
  makes the \<^verbatim>\<open>await\<close> throw, which ends the function with nothing assigned; a resolved
  promise always carries an object, so \<^verbatim>\<open>if (!stats)\<close> never returns early.
\<close>

definition updateSpeed_begin :: "world \<Rightarrow> world" where
  "updateSpeed_begin s = s\<lparr>in_flight := in_flight s + 1\<rparr>"

definition updateSpeed_resume :: "stats option \<Rightarrow> world \<Rightarrow> world" where
  "updateSpeed_resume r s =
     (case r of
        None \<Rightarrow> s
      | Some st \<Rightarrow>
          (let s1 = init_previous st s;
               downloadSpeed = formatSpeedValue (rxRate st s1);
               uploadSpeed = formatSpeedValue (txRate st s1)
           in s1\<lparr>label_text := down_arrow @ '' '' @ downloadSpeed @ '' '' @ up_arrow @ '' '' @ uploadSpeed,
                 previousRxBytes := totalRxBytes st,
                 previousTxBytes := totalTxBytes st\<rparr>))"

text \<open>The rates a tick computes from a sample: what it passes to the formatter.\<close>

definition download_rate :: "stats \<Rightarrow> world \<Rightarrow> jsnum" where
  "download_rate st s = rxRate st (init_previous st s)"

definition upload_rate :: "stats \<Rightarrow> world \<Rightarrow> jsnum" where
  "upload_rate st s = txRate st (init_previous st s)"

subsection \<open>\<^verbatim>\<open>startUpdate\<close> and \<^verbatim>\<open>stopUpdate\<close>\<close>

text \<open>\<^verbatim>\<open>GLib.timeout_add_seconds\<close> attaches a new source and returns its identifier.\<close>

definition timeout_add_seconds :: "world \<Rightarrow> nat \<times> world" where
  "timeout_add_seconds s =
     (next_source s, s\<lparr>sources := sources s @ [next_source s], next_source := next_source s + 1\<rparr>)"

text \<open>\<^verbatim>\<open>GLib.source_remove\<close> detaches the source with the given identifier.\<close>

definition source_remove :: "nat \<Rightarrow> world \<Rightarrow> world" where
  "source_remove t s = s\<lparr>sources := removeAll t (sources s)\<rparr>"

definition startUpdate :: "world \<Rightarrow> world" where
  "startUpdate s =
     (let s1 = updateSpeed_begin s;
          (t, s2) = timeout_add_seconds s1
      in s2\<lparr>updateTimer := Some t\<rparr>)"

text \<open>\<^verbatim>\<open>if (this._updateTimer)\<close>: \<^verbatim>\<open>null\<close> and 0 are falsy.\<close>

definition stopUpdate :: "world \<Rightarrow> world" where
  "stopUpdate s =
     (case updateTimer s of
        None \<Rightarrow> s
      | Some t \<Rightarrow> if t \<noteq> 0 then (source_remove t s)\<lparr>updateTimer := None\<rparr> else s)"

text \<open>
  The callback given to \<^verbatim>\<open>timeout_add_seconds\<close>: it calls \<^verbatim>\<open>_updateSpeed\<close> without
  waiting for it and returns \<^verbatim>\<open>SOURCE_CONTINUE\<close> (\<open>True\<close>), so the source stays attached.
\<close>

definition timer_callback :: "world \<Rightarrow> bool \<times> world" where
  "timer_callback s = (True, updateSpeed_begin s)"

subsection \<open>Events of the main loop\<close>

text \<open>
  The host calls \<^verbatim>\<open>startUpdate\<close> or \<^verbatim>\<open>stopUpdate\<close>, an attached timeout source fires, or a
  read that is in flight completes with the contents of the file (\<open>None\<close>: the read
  failed). The completion callback and the rest of \<^verbatim>\<open>_updateSpeed\<close>, which the resolved
  promise resumes before the main loop dispatches anything else, are one step.
\<close>

datatype event = Start | Stop | TimerFire nat | ReadDone "string option"

definition step :: "event \<Rightarrow> world \<Rightarrow> world" where
  "step e s =
     (case e of
        Start \<Rightarrow> startUpdate s
      | Stop \<Rightarrow> stopUpdate s
      | TimerFire t \<Rightarrow>
          if t \<in> set (sources s)
          then (let (continue, s') = timer_callback s
                in if continue then s' else source_remove t s')
          else s
      | ReadDone contents \<Rightarrow>
          if 0 < in_flight s
          then updateSpeed_resume (readNetworkStats contents) (s\<lparr>in_flight := in_flight s - 1\<rparr>)
          else s)"

definition run :: "event list \<Rightarrow> world \<Rightarrow> world" where
  "run es s = foldl (\<lambda>s e. step e s) s es"

subsection \<open>Notions used to state the properties\<close>

text \<open>
  A number printed with exactly one decimal digit: an optional minus sign, at least one
  digit, a point and one digit.
\<close>

definition fixed1_shape :: "string \<Rightarrow> bool" where
  "fixed1_shape t =
     (let u = (if t \<noteq> [] \<and> hd t = CHR ''-'' then tl t else t);
          k = length u
      in 3 \<le> k \<and> list_all is_digit (take (k - 2) u) \<and> u ! (k - 2) = CHR ''.''
         \<and> is_digit (u ! (k - 1)))"

text \<open>
  A snapshot in the format of \<^verbatim>\<open>/proc/net/dev\<close>, used as a concrete input: two header
  lines, the loopback interface and one physical interface.
\<close>

definition example_snapshot :: string where
  "example_snapshot =
     ''Inter-|   Receive  |  Transmit'' @ [CHR 0x0A] @
     '' face |bytes packets|bytes packets'' @ [CHR 0x0A] @
     ''    lo: 5555 1 0 0 0 0 0 0 7777 1 0 0 0 0 0 0'' @ [CHR 0x0A] @
     ''  eth0: 1000 0 0 0 0 0 0 0 2000 0 0 0 0 0 0 0'' @ [CHR 0x0A]"

text \<open>
  The timer handle of the indicator accounts for the attached sources: no source is
  attached when the handle is empty, and exactly the source it names otherwise.
\<close>

definition tracked :: "world \<Rightarrow> bool" where
  "tracked s =
     (0 < next_source s \<and> updateTimer s \<noteq> Some 0 \<and>
      sources s = (case updateTimer s of None \<Rightarrow> [] | Some t \<Rightarrow> [t]))"

text \<open>
  A sequence of events in which \<^verbatim>\<open>startUpdate\<close> is only called while the indicator holds
  no timer, as \<^verbatim>\<open>enable\<close> does, which starts each new indicator once.
\<close>

fun disciplined :: "event list \<Rightarrow> world \<Rightarrow> bool" where
  "disciplined [] s = True"
| "disciplined (e # es) s = ((e = Start \<longrightarrow> updateTimer s = None) \<and> disciplined es (step e s))"

text \<open>
  The words of the specification about a snapshot. The lines after the two header lines
  are the data lines. The interface name of a line is the trimmed text before its first
  colon, and the fields of a line are the pieces of its data portion between white space.
\<close>

definition data_lines :: "string \<Rightarrow> string list" where
  "data_lines contents = drop 2 (split_on (CHR 0x0A) contents)"

definition interface_name :: "string \<Rightarrow> string" where
  "interface_name line = trim (takeWhile (\<lambda>c. c \<noteq> CHR '':'') line)"

definition line_fields :: "string \<Rightarrow> string list" where
  "line_fields line = split_ws (trim (split_on (CHR '':'') (trim line) ! 1))"

text \<open>
  A well-formed line is blank or has the shape \<^verbatim>\<open>name: f1 f2 ...\<close> with one colon and at
  least nine fields, each a non-empty string of digits. A snapshot is well formed when
  all its data lines are.
\<close>

definition numeric :: "string \<Rightarrow> bool" where
  "numeric f = (f \<noteq> [] \<and> list_all is_digit f)"

definition wellformed_line :: "string \<Rightarrow> bool" where
  "wellformed_line line =
     (let t = trim line
      in t = [] \<or>
         (case split_on (CHR '':'') t of
            [name, data] \<Rightarrow>
              (let fs = split_ws (trim data) in 9 \<le> length fs \<and> list_all numeric fs)
          | _ \<Rightarrow> False))"

definition wellformed_snapshot :: "string \<Rightarrow> bool" where
  "wellformed_snapshot contents = list_all wellformed_line (data_lines contents)"

text \<open>
  The lines of a well-formed snapshot that count towards the aggregate, and the byte
  counts they carry in their first and ninth field.
\<close>

definition counted :: "string \<Rightarrow> bool" where
  "counted line = (trim line \<noteq> [] \<and> \<not> isIgnoredInterface (interface_name line))"

definition rx_bytes :: "string \<Rightarrow> int" where
  "rx_bytes line = digits_val (line_fields line ! 0)"

definition tx_bytes :: "string \<Rightarrow> int" where
  "tx_bytes line = digits_val (line_fields line ! 8)"

text \<open>The snapshot above followed by a line that has only three fields.\<close>

definition short_line_snapshot :: string where
  "short_line_snapshot = example_snapshot @ ''wlan0: 100 0 0'' @ [CHR 0x0A]"

text \<open>
  What the lines of a snapshot add to the totals: for each data line that is not skipped,
  the numbers added to the rx and to the tx total. \<open>js_sum\<close> is the repeated \<^verbatim>\<open>+=\<close> from
  0, and \<open>value_of\<close> reads a number that is not NaN.
\<close>

definition contributions :: "string \<Rightarrow> (jsnum \<times> jsnum) list" where
  "contributions contents =
     map (\<lambda>(rxBytes, txBytes). (to_number rxBytes, to_number txBytes))
       (List.map_filter parse_line (data_lines contents))"

definition js_sum :: "jsnum list \<Rightarrow> jsnum" where
  "js_sum xs = foldl js_add (Num 0) xs"

fun value_of :: "jsnum \<Rightarrow> rat" where
  "value_of (Num a) = a"
| "value_of NaN = 0"

section \<open>Properties\<close>

subsection \<open>The formatter\<close>

lemma scale_loop_stop: "\<not> js_ge v 1024 \<or> 3 \<le> i \<Longrightarrow> scale_loop v i = (v, i)"
  by (subst scale_loop.simps) (auto simp: units_def)

lemma scale_loop_go:
  "js_ge v 1024 \<Longrightarrow> i < 3 \<Longrightarrow> scale_loop v i = scale_loop (js_div v 1024) (i + 1)"
  by (subst scale_loop.simps) (simp add: units_def)

lemma scale_loop_closed:
  "scale_loop (Num x) 0 =
     (if x < 1024 then (Num x, 0)
      else if x < 1024 ^ 2 then (Num (x / 1024), 1)
      else if x < 1024 ^ 3 then (Num (x / 1024 ^ 2), 2)
      else (Num (x / 1024 ^ 3), 3))"
proof -
  define x1 where "x1 = x / 1024"
  define x2 where "x2 = x1 / 1024"
  define x3 where "x3 = x2 / 1024"
  have c1: "1024 \<le> x1 \<longleftrightarrow> 1024 ^ 2 \<le> x" by (simp add: x1_def power2_eq_square le_divide_eq)
  have c2: "1024 \<le> x2 \<longleftrightarrow> 1024 ^ 3 \<le> x"
    by (simp add: x2_def x1_def power3_eq_cube le_divide_eq)
  have q2: "x2 = x / 1024 ^ 2" by (simp add: x2_def x1_def power2_eq_square)
  have q3: "x3 = x / 1024 ^ 3" by (simp add: x3_def x2_def x1_def power3_eq_cube)
  have g0: "1024 \<le> x \<Longrightarrow> scale_loop (Num x) 0 = scale_loop (Num x1) 1"
    using scale_loop_go [of "Num x" 0] by (simp add: x1_def)
  have g1: "1024 \<le> x1 \<Longrightarrow> scale_loop (Num x1) 1 = scale_loop (Num x2) 2"
    using scale_loop_go [of "Num x1" 1] by (simp add: x2_def numeral_2_eq_2)
  have g2: "1024 \<le> x2 \<Longrightarrow> scale_loop (Num x2) 2 = scale_loop (Num x3) 3"
    using scale_loop_go [of "Num x2" 2] by (simp add: x3_def numeral_3_eq_3)
  have e0: "x < 1024 \<Longrightarrow> scale_loop (Num x) 0 = (Num x, 0)"
    using scale_loop_stop [of "Num x" 0] by simp
  have e1: "x1 < 1024 \<Longrightarrow> scale_loop (Num x1) 1 = (Num x1, 1)"
    using scale_loop_stop [of "Num x1" 1] by simp
  have e2: "x2 < 1024 \<Longrightarrow> scale_loop (Num x2) 2 = (Num x2, 2)"
    using scale_loop_stop [of "Num x2" 2] by simp
  have e3: "scale_loop (Num x3) 3 = (Num x3, 3)"
    using scale_loop_stop [of "Num x3" 3] by simp
  consider "x < 1024" | "1024 \<le> x" "x1 < 1024" | "1024 \<le> x" "1024 \<le> x1" "x2 < 1024"
    | "1024 \<le> x" "1024 \<le> x1" "1024 \<le> x2"
    by linarith
  then have "scale_loop (Num x) 0 =
     (if x < 1024 then (Num x, 0)
      else if \<not> 1024 \<le> x1 then (Num x1, 1)
      else if \<not> 1024 \<le> x2 then (Num x2, 2)
      else (Num x3, 3))"
  proof cases
    case 1
    then show ?thesis by (simp only: e0 if_True)
  next
    case 2
    have "scale_loop (Num x) 0 = (Num x1, 1)" by (simp only: g0 [OF 2(1)] e1 [OF 2(2)])
    with 2 show ?thesis by auto
  next
    case 3
    have "scale_loop (Num x) 0 = (Num x2, 2)"
      by (simp only: g0 [OF 3(1)] g1 [OF 3(2)] e2 [OF 3(3)])
    with 3 show ?thesis by auto
  next
    case 4
    have "scale_loop (Num x) 0 = (Num x3, 3)"
      by (simp only: g0 [OF 4(1)] g1 [OF 4(2)] g2 [OF 4(3)] e3)
    with 4 show ?thesis by auto
  qed
  then have "scale_loop (Num x) 0 =
     (if x < 1024 then (Num x, 0)
      else if \<not> 1024 ^ 2 \<le> x then (Num x1, 1)
      else if \<not> 1024 ^ 3 \<le> x then (Num x2, 2)
      else (Num x3, 3))"
    by (simp only: c1 c2)
  then show ?thesis
    by (simp only: q2 q3 x1_def not_le)
qed

lemma formatSpeedValue_closed:
  "formatSpeedValue (Num x) =
     (let i = (if x < 1024 then 0 else if x < 1024 ^ 2 then 1 else if x < 1024 ^ 3 then 2 else 3::nat)
      in toFixed1 (Num (x / 1024 ^ i)) @ '' '' @ units ! i)"
proof -
  consider "x < 1024" | "\<not> x < 1024" "x < 1024 ^ 2" | "\<not> x < 1024" "\<not> x < 1024 ^ 2" "x < 1024 ^ 3"
    | "\<not> x < 1024" "\<not> x < 1024 ^ 2" "\<not> x < 1024 ^ 3"
    by blast
  then show ?thesis
    by cases (simp_all add: formatSpeedValue_def scale_loop_closed)
qed

lemma digit_char_is_digit: "0 \<le> d \<Longrightarrow> d < 10 \<Longrightarrow> is_digit (digit_char d)"
proof -
  assume "0 \<le> d" "d < 10"
  then have "d = 0 \<or> d = 1 \<or> d = 2 \<or> d = 3 \<or> d = 4 \<or> d = 5 \<or> d = 6 \<or> d = 7 \<or> d = 8 \<or> d = 9"
    by presburger
  then show ?thesis
    by (auto simp: is_digit_def digit_char_def)
qed

lemma show_nat_digits: "0 \<le> n \<Longrightarrow> list_all is_digit (show_nat n)"
proof (induction n rule: show_nat.induct)
  case (1 n)
  show ?case
  proof (cases "n < 10")
    case True
    with 1(2) show ?thesis by (subst show_nat.simps) (simp add: digit_char_is_digit)
  next
    case False
    then have "0 \<le> n div 10" by simp
    with False 1 show ?thesis by (subst show_nat.simps) (simp add: digit_char_is_digit)
  qed
qed

lemma fixed1_shape_plain:
  assumes "ds \<noteq> []" "list_all is_digit ds" "is_digit d"
  shows "fixed1_shape (ds @ ''.'' @ [d])"
proof -
  obtain c ds' where ds: "ds = c # ds'" using assms(1) by (cases ds) auto
  have "is_digit c" using assms(2) ds by simp
  then have nd: "c \<noteq> CHR ''-''" by (auto simp: is_digit_def)
  have k: "length (ds @ ''.'' @ [d]) - 2 = length ds" by simp
  have k1: "length (ds @ ''.'' @ [d]) - 1 = Suc (length ds)" by simp
  have k3: "3 \<le> length (ds @ ''.'' @ [d])" using ds by simp
  have n1: "(ds @ ''.'' @ [d]) ! length ds = CHR ''.''" by (simp add: nth_append)
  have n2: "(ds @ ''.'' @ [d]) ! Suc (length ds) = d" by (simp add: nth_append)
  have tk: "take (length ds) (ds @ ''.'' @ [d]) = ds" by simp
  have hd: "hd (ds @ ''.'' @ [d]) = c" using ds by simp
  show ?thesis
    unfolding fixed1_shape_def Let_def hd using nd
    by (simp only: if_False simp_thms k k1 k3 n1 n2 tk assms)
qed

lemma fixed1_shape_minus:
  assumes "fixed1_shape t" "t \<noteq> []" "is_digit (hd t)"
  shows "fixed1_shape (''-'' @ t)"
proof -
  have "hd t \<noteq> CHR ''-''" using assms(3) by (auto simp: is_digit_def)
  with assms show ?thesis by (simp add: fixed1_shape_def Let_def)
qed

lemma toFixed1_shape: "fixed1_shape (toFixed1 (Num x))"
proof -
  define n where "n = \<lfloor>\<bar>x\<bar> * 10 + 1 / 2\<rfloor>"
  have n0: "0 \<le> n" by (simp add: n_def)
  define m where "m = (if length (show_nat n) \<le> 1
    then replicate (2 - length (show_nat n)) (CHR ''0'') @ show_nat n else show_nat n)"
  have z: "is_digit (CHR ''0'')" by (simp add: is_digit_def)
  have dm: "list_all is_digit m"
    using show_nat_digits [OF n0] z by (simp add: m_def list_all_iff)
  have lm: "2 \<le> length m" by (simp add: m_def)
  then have "m \<noteq> []" by auto
  then obtain ds d where m: "m = ds @ [d]" by (cases m rule: rev_cases) auto
  with lm dm have ds: "ds \<noteq> []" "list_all is_digit ds" "is_digit d" by auto
  have td: "take (length m - 1) m = ds" "drop (length m - 1) m = [d]"
    by (simp_all add: m)
  have plain: "fixed1_shape (ds @ ''.'' @ [d])" by (rule fixed1_shape_plain [OF ds])
  have hdd: "is_digit (hd (ds @ ''.'' @ [d]))" using ds by (cases ds) simp_all
  have minus: "fixed1_shape (''-'' @ ds @ ''.'' @ [d])"
    by (rule fixed1_shape_minus [OF plain _ hdd]) simp
  have eq: "toFixed1 (Num x) =
      (if x < 0 then ''-'' else []) @ take (length m - 1) m @ ''.'' @ drop (length m - 1) m"
    unfolding toFixed1_def Let_def m_def n_def by (simp only: jsnum.case)
  show ?thesis
    unfolding eq td using plain minus by (cases "x < 0") simp_all
qed

text \<open>
  Claim C6. The formatter divides by 1024 and moves to the next unit while the value is
  at least 1024 and a larger unit remains: a value below 1024 is printed in B/s, a value
  below \<open>1024^2\<close> in KB/s, a value below \<open>1024^3\<close> in MB/s, and every value from
  \<open>1024^3\<close> on in GB/s, scaled by \<open>1024^3\<close> even when the result is still 1024 or more.
  The scaled value is printed with exactly one decimal digit, followed by a space and the
  unit. The five examples of the specification hold.
\<close>

theorem formatSpeedValue_units_and_examples:
  "formatSpeedValue (Num 0) = ''0.0 B/s'' \<and>
   formatSpeedValue (Num 1023) = ''1023.0 B/s'' \<and>
   formatSpeedValue (Num 1024) = ''1.0 KB/s'' \<and>
   formatSpeedValue (Num 1536) = ''1.5 KB/s'' \<and>
   formatSpeedValue (Num (1024 * 1024 * 5)) = ''5.0 MB/s'' \<and>
   formatSpeedValue (Num (1024 ^ 4)) = ''1024.0 GB/s'' \<and>
   formatSpeedValue (Num x) =
     (let i = (if x < 1024 then 0 else if x < 1024 ^ 2 then 1 else if x < 1024 ^ 3 then 2 else 3::nat)
      in toFixed1 (Num (x / 1024 ^ i)) @ '' '' @ units ! i) \<and>
   fixed1_shape (toFixed1 (Num x))"
proof -
  have 1: "formatSpeedValue (Num 0) = ''0.0 B/s''" by code_simp
  have 2: "formatSpeedValue (Num 1023) = ''1023.0 B/s''" by code_simp
  have 3: "formatSpeedValue (Num 1024) = ''1.0 KB/s''" by code_simp
  have 4: "formatSpeedValue (Num 1536) = ''1.5 KB/s''" by code_simp
  have 5: "formatSpeedValue (Num (1024 * 1024 * 5)) = ''5.0 MB/s''" by code_simp
  have 6: "formatSpeedValue (Num (1024 ^ 4)) = ''1024.0 GB/s''" by code_simp
  note 7 = formatSpeedValue_closed [of x]
  note 8 = toFixed1_shape [of x]
  show ?thesis
    apply (rule conjI, rule 1)
    apply (rule conjI, rule 2)
    apply (rule conjI, rule 3)
    apply (rule conjI, rule 4)
    apply (rule conjI, rule 5)
    apply (rule conjI, rule 6)
    apply (rule conjI, rule 7)
    apply (rule 8)
    done
qed

theorem formatSpeedValue_units_and_examples_witness:
  "formatSpeedValue (Num 2048) = ''2.0 KB/s'' \<and> fixed1_shape (toFixed1 (Num 2048))"
proof -
  note t = formatSpeedValue_units_and_examples [of 2048]
  note r = t [THEN conjunct2, THEN conjunct2, THEN conjunct2, THEN conjunct2, THEN conjunct2,
    THEN conjunct2]
  have "(let i = (if (2048::rat) < 1024 then 0 else if (2048::rat) < 1024 ^ 2 then 1
                  else if (2048::rat) < 1024 ^ 3 then 2 else 3::nat)
         in toFixed1 (Num (2048 / 1024 ^ i)) @ '' '' @ units ! i) = ''2.0 KB/s''"
    by code_simp
  with r [THEN conjunct1] have "formatSpeedValue (Num 2048) = ''2.0 KB/s''"
    by (rule trans)
  from this r [THEN conjunct2] show ?thesis
    by (rule conjI)
qed

subsection \<open>The rates of a tick\<close>

lemma download_rate_Num:
  "totalRxBytes st = Num c \<Longrightarrow> previousRxBytes s = Num p \<Longrightarrow>
   download_rate st s = Num ((c - (if p \<noteq> 0 then p else c)) / UPDATE_INTERVAL_SECONDS)"
  by (simp add: download_rate_def rxRate_def init_previous_def or_assign_def)

lemma upload_rate_Num:
  "totalTxBytes st = Num c \<Longrightarrow> previousTxBytes s = Num p \<Longrightarrow>
   upload_rate st s = Num ((c - (if p \<noteq> 0 then p else c)) / UPDATE_INTERVAL_SECONDS)"
  by (simp add: upload_rate_def txRate_def init_previous_def or_assign_def)

text \<open>
  Claim C1, as amended. On a tick whose stored previous total is a non-zero number, the
  rate passed to the formatter is \<open>(current - previous) / UPDATE_INTERVAL_SECONDS\<close>,
  for rx and tx independently of each other. When the counter has not regressed this is
  \<open>max 0 (current - previous) / UPDATE_INTERVAL_SECONDS\<close>; when the counter has
  regressed the rate is negative: the code does not clamp.
\<close>

theorem rate_is_unclamped_difference:
  "(previousRxBytes s = Num p \<and> p \<noteq> 0 \<and> totalRxBytes st = Num c \<longrightarrow>
      download_rate st s = Num ((c - p) / UPDATE_INTERVAL_SECONDS) \<and>
      (p \<le> c \<longrightarrow> download_rate st s = Num (max 0 (c - p) / UPDATE_INTERVAL_SECONDS)) \<and>
      (c < p \<longrightarrow> (\<exists>r. download_rate st s = Num r \<and> r < 0))) \<and>
   (previousTxBytes s = Num q \<and> q \<noteq> 0 \<and> totalTxBytes st = Num d \<longrightarrow>
      upload_rate st s = Num ((d - q) / UPDATE_INTERVAL_SECONDS) \<and>
      (q \<le> d \<longrightarrow> upload_rate st s = Num (max 0 (d - q) / UPDATE_INTERVAL_SECONDS)) \<and>
      (d < q \<longrightarrow> (\<exists>r. upload_rate st s = Num r \<and> r < 0)))"
proof -
  have rx: "download_rate st s = Num ((c - p) / UPDATE_INTERVAL_SECONDS)"
    if "previousRxBytes s = Num p" "p \<noteq> 0" "totalRxBytes st = Num c"
    using download_rate_Num [OF that(3) that(1)] that(2) by simp
  have tx: "upload_rate st s = Num ((d - q) / UPDATE_INTERVAL_SECONDS)"
    if "previousTxBytes s = Num q" "q \<noteq> 0" "totalTxBytes st = Num d"
    using upload_rate_Num [OF that(3) that(1)] that(2) by simp
  have neg: "(a - b) / UPDATE_INTERVAL_SECONDS < 0" if "a < b" for a b :: rat
    using that by (simp add: UPDATE_INTERVAL_SECONDS_def)
  have pos: "max 0 (a - b) = a - b" if "b \<le> a" for a b :: rat
    using that by simp
  show ?thesis
    using rx tx neg pos by auto
qed

theorem rate_is_unclamped_difference_witness:
  "download_rate \<lparr>totalRxBytes = Num 1000, totalTxBytes = Num 100\<rparr>
     (init\<lparr>previousRxBytes := Num 100, previousTxBytes := Num 400\<rparr>) = Num 300 \<and>
   (\<exists>r. upload_rate \<lparr>totalRxBytes = Num 1000, totalTxBytes = Num 100\<rparr>
     (init\<lparr>previousRxBytes := Num 100, previousTxBytes := Num 400\<rparr>) = Num r \<and> r < 0)"
  using rate_is_unclamped_difference [of "init\<lparr>previousRxBytes := Num 100, previousTxBytes := Num 400\<rparr>"
      100 "\<lparr>totalRxBytes = Num 1000, totalTxBytes = Num 100\<rparr>" 1000 400 100]
  by (simp add: UPDATE_INTERVAL_SECONDS_def)

text \<open>
  Claim C1, as stated, fails: after a sample with rx total 1000, a sample with rx total
  100 gives the rate \<open>-300\<close>, not 0, and the label shows \<^verbatim>\<open>-300.0 B/s\<close>.
\<close>

theorem regressed_counter_rate_counterexample:
  "previousRxBytes (updateSpeed_resume (Some \<lparr>totalRxBytes = Num 1000, totalTxBytes = Num 200\<rparr>) init)
     = Num 1000 \<and>
   download_rate \<lparr>totalRxBytes = Num 100, totalTxBytes = Num 200\<rparr>
     (updateSpeed_resume (Some \<lparr>totalRxBytes = Num 1000, totalTxBytes = Num 200\<rparr>) init)
     = Num (- 300) \<and>
   download_rate \<lparr>totalRxBytes = Num 100, totalTxBytes = Num 200\<rparr>
     (updateSpeed_resume (Some \<lparr>totalRxBytes = Num 1000, totalTxBytes = Num 200\<rparr>) init)
     \<noteq> Num (max 0 (100 - 1000) / UPDATE_INTERVAL_SECONDS) \<and>
   label_text (updateSpeed_resume (Some \<lparr>totalRxBytes = Num 100, totalTxBytes = Num 200\<rparr>)
     (updateSpeed_resume (Some \<lparr>totalRxBytes = Num 1000, totalTxBytes = Num 200\<rparr>) init))
     = down_arrow @ '' -300.0 B/s '' @ up_arrow @ '' 0.0 B/s''"
  by code_simp

lemma example_snapshot_stats:
  "readNetworkStats (Some example_snapshot) = Some \<lparr>totalRxBytes = Num 1000, totalTxBytes = Num 2000\<rparr>"
  by code_simp

lemma formatSpeedValue_zero: "formatSpeedValue (Num 0) = ''0.0 B/s''"
  by code_simp

text \<open>
  The scenario of the specification: after a sample of 100 and 200 bytes, the snapshot
  with 1000 and 2000 bytes on \<^verbatim>\<open>eth0\<close> shows 300 B/s down and 600 B/s up.
\<close>

lemma scenario_eth0:
  "label_text (updateSpeed_resume (readNetworkStats (Some example_snapshot))
     (init\<lparr>previousRxBytes := Num 100, previousTxBytes := Num 200\<rparr>)) =
   down_arrow @ '' 300.0 B/s '' @ up_arrow @ '' 600.0 B/s''"
  by code_simp

lemma startUpdate_init:
  "startUpdate init = init\<lparr>updateTimer := Some 1, sources := [1], next_source := 2, in_flight := 1\<rparr>"
  by (simp add: startUpdate_def init_def updateSpeed_begin_def timeout_add_seconds_def)

lemma updateSpeed_resume_fields:
  "previousRxBytes (updateSpeed_resume (Some st) s) = totalRxBytes st"
  "previousTxBytes (updateSpeed_resume (Some st) s) = totalTxBytes st"
  "label_text (updateSpeed_resume (Some st) s) =
     down_arrow @ '' '' @ formatSpeedValue (download_rate st s) @ '' '' @ up_arrow @ '' '' @
     formatSpeedValue (upload_rate st s)"
  "updateTimer (updateSpeed_resume r s) = updateTimer s"
  "sources (updateSpeed_resume r s) = sources s"
  "next_source (updateSpeed_resume r s) = next_source s"
  "in_flight (updateSpeed_resume r s) = in_flight s"
  by (simp_all add: updateSpeed_resume_def Let_def download_rate_def upload_rate_def
      init_previous_def split: option.splits)

text \<open>
  Claim C4. On the first tick after \<^verbatim>\<open>startUpdate\<close> on a fresh indicator, whatever
  (finite) totals the read yields, both rates are 0, the label shows \<^verbatim>\<open>0.0 B/s\<close> twice
  and the totals read become the stored previous values.
\<close>

theorem first_tick_rate_is_zero:
  assumes "readNetworkStats (Some contents) = Some st"
    and "totalRxBytes st = Num rx" and "totalTxBytes st = Num tx"
  shows "download_rate st (startUpdate init) = Num 0 \<and>
         upload_rate st (startUpdate init) = Num 0 \<and>
         label_text (run [Start, ReadDone (Some contents)] init) =
           down_arrow @ '' 0.0 B/s '' @ up_arrow @ '' 0.0 B/s'' \<and>
         previousRxBytes (run [Start, ReadDone (Some contents)] init) = Num rx \<and>
         previousTxBytes (run [Start, ReadDone (Some contents)] init) = Num tx"
proof -
  let ?s0 = "startUpdate init"
  have p: "previousRxBytes ?s0 = Num 0" "previousTxBytes ?s0 = Num 0" "in_flight ?s0 = 1"
    by (simp_all add: startUpdate_init) (simp_all add: init_def)
  have d: "download_rate st ?s0 = Num 0"
    using download_rate_Num [OF assms(2) p(1)] by simp
  have u: "upload_rate st ?s0 = Num 0"
    using upload_rate_Num [OF assms(3) p(2)] by simp
  have r: "run [Start, ReadDone (Some contents)] init =
      updateSpeed_resume (Some st) (?s0\<lparr>in_flight := 0\<rparr>)"
    using p(3) assms(1) by (simp add: run_def step_def)
  have d': "download_rate st (?s0\<lparr>in_flight := 0\<rparr>) = Num 0"
    using d by (simp add: download_rate_def rxRate_def init_previous_def)
  have u': "upload_rate st (?s0\<lparr>in_flight := 0\<rparr>) = Num 0"
    using u by (simp add: upload_rate_def txRate_def init_previous_def)
  show ?thesis
    unfolding r updateSpeed_resume_fields d' u' formatSpeedValue_zero
    using d u assms(2,3) by simp
qed

theorem first_tick_rate_is_zero_witness:
  "download_rate \<lparr>totalRxBytes = Num 1000, totalTxBytes = Num 2000\<rparr> (startUpdate init) = Num 0 \<and>
   upload_rate \<lparr>totalRxBytes = Num 1000, totalTxBytes = Num 2000\<rparr> (startUpdate init) = Num 0 \<and>
   label_text (run [Start, ReadDone (Some example_snapshot)] init) =
     down_arrow @ '' 0.0 B/s '' @ up_arrow @ '' 0.0 B/s'' \<and>
   previousRxBytes (run [Start, ReadDone (Some example_snapshot)] init) = Num 1000 \<and>
   previousTxBytes (run [Start, ReadDone (Some example_snapshot)] init) = Num 2000"
  using first_tick_rate_is_zero [OF example_snapshot_stats, of 1000 2000] by simp

text \<open>
  Claim C5. A stored previous rx total of 0 is treated as no previous sample: \<^verbatim>\<open>||=\<close>
  replaces it by the current total and the rx rate is 0 whatever the current total is;
  this also happens on the tick after a sample whose rx total was 0. The same holds for
  tx, and neither direction depends on the other.
\<close>

theorem zero_baseline_is_reinitialised:
  "(previousRxBytes s = Num 0 \<and> totalRxBytes st = Num c \<longrightarrow>
      previousRxBytes (init_previous st s) = Num c \<and> download_rate st s = Num 0) \<and>
   (previousTxBytes s = Num 0 \<and> totalTxBytes st = Num d \<longrightarrow>
      previousTxBytes (init_previous st s) = Num d \<and> upload_rate st s = Num 0) \<and>
   (totalRxBytes st = Num c \<longrightarrow>
      download_rate st (updateSpeed_resume (Some \<lparr>totalRxBytes = Num 0, totalTxBytes = t\<rparr>) s) = Num 0) \<and>
   (totalTxBytes st = Num d \<longrightarrow>
      upload_rate st (updateSpeed_resume (Some \<lparr>totalRxBytes = r, totalTxBytes = Num 0\<rparr>) s) = Num 0)"
proof -
  have a: "previousRxBytes (init_previous st s) = Num c \<and> download_rate st s = Num 0"
    if "previousRxBytes s = Num 0" "totalRxBytes st = Num c" for s :: world
    using that download_rate_Num [OF that(2) that(1)]
    by (simp add: init_previous_def or_assign_def)
  have b: "previousTxBytes (init_previous st s) = Num d \<and> upload_rate st s = Num 0"
    if "previousTxBytes s = Num 0" "totalTxBytes st = Num d" for s :: world
    using that upload_rate_Num [OF that(2) that(1)]
    by (simp add: init_previous_def or_assign_def)
  have c: "download_rate st (updateSpeed_resume (Some \<lparr>totalRxBytes = Num 0, totalTxBytes = t\<rparr>) s) = Num 0"
    if "totalRxBytes st = Num c"
    using a [of "updateSpeed_resume (Some \<lparr>totalRxBytes = Num 0, totalTxBytes = t\<rparr>) s", OF _ that]
    by (simp add: updateSpeed_resume_fields)
  have d: "upload_rate st (updateSpeed_resume (Some \<lparr>totalRxBytes = r, totalTxBytes = Num 0\<rparr>) s) = Num 0"
    if "totalTxBytes st = Num d"
    using b [of "updateSpeed_resume (Some \<lparr>totalRxBytes = r, totalTxBytes = Num 0\<rparr>) s", OF _ that]
    by (simp add: updateSpeed_resume_fields)
  from a [of s] b [of s] c d show ?thesis by blast
qed

theorem zero_baseline_is_reinitialised_witness:
  "download_rate \<lparr>totalRxBytes = Num 3000, totalTxBytes = Num 600\<rparr>
     (init\<lparr>previousRxBytes := Num 0, previousTxBytes := Num 300\<rparr>) = Num 0 \<and>
   upload_rate \<lparr>totalRxBytes = Num 3000, totalTxBytes = Num 600\<rparr>
     (init\<lparr>previousRxBytes := Num 0, previousTxBytes := Num 300\<rparr>) = Num 100 \<and>
   download_rate \<lparr>totalRxBytes = Num 3000, totalTxBytes = Num 600\<rparr>
     (updateSpeed_resume (Some \<lparr>totalRxBytes = Num 0, totalTxBytes = Num 300\<rparr>)
        (init\<lparr>previousRxBytes := Num 5, previousTxBytes := Num 300\<rparr>)) = Num 0"
proof -
  have u: "upload_rate \<lparr>totalRxBytes = Num 3000, totalTxBytes = Num 600\<rparr>
     (init\<lparr>previousRxBytes := Num 0, previousTxBytes := Num 300\<rparr>) = Num 100"
    by code_simp
  show ?thesis
    using zero_baseline_is_reinitialised [of "init\<lparr>previousRxBytes := Num 0, previousTxBytes := Num 300\<rparr>"
      "\<lparr>totalRxBytes = Num 3000, totalTxBytes = Num 600\<rparr>" 3000 600 "Num 300" "Num 0"]
      zero_baseline_is_reinitialised [of "init\<lparr>previousRxBytes := Num 5, previousTxBytes := Num 300\<rparr>"
      "\<lparr>totalRxBytes = Num 3000, totalTxBytes = Num 600\<rparr>" 3000 600 "Num 300" "Num 0"]
      u
    by simp
qed

text \<open>
  Claim C3. A failed read is rejected, and the tick it belongs to changes nothing but the
  count of reads in flight: the stored previous totals, the label, the timer handle and
  the attached timeout sources are as before. Every attached source still starts a new
  read when it fires, and the rates of the next successful tick are those it would have
  computed without the failed tick.
\<close>

theorem failed_read_keeps_baseline:
  "readNetworkStats None = None \<and>
   (0 < in_flight s \<longrightarrow>
      step (ReadDone None) s = s\<lparr>in_flight := in_flight s - 1\<rparr> \<and>
      previousRxBytes (step (ReadDone None) s) = previousRxBytes s \<and>
      previousTxBytes (step (ReadDone None) s) = previousTxBytes s \<and>
      label_text (step (ReadDone None) s) = label_text s \<and>
      updateTimer (step (ReadDone None) s) = updateTimer s \<and>
      sources (step (ReadDone None) s) = sources s \<and>
      (\<forall>t \<in> set (sources s).
         step (TimerFire t) (step (ReadDone None) s) =
           (step (ReadDone None) s)\<lparr>in_flight := in_flight s\<rparr>) \<and>
      download_rate st (step (ReadDone None) s) = download_rate st s \<and>
      upload_rate st (step (ReadDone None) s) = upload_rate st s)"
  by (auto simp: readNetworkStats_def step_def updateSpeed_resume_def timer_callback_def
      updateSpeed_begin_def download_rate_def upload_rate_def rxRate_def txRate_def
      init_previous_def)

theorem failed_read_keeps_baseline_witness:
  "previousRxBytes (run [Start, ReadDone (Some example_snapshot), TimerFire 1, ReadDone None] init)
     = Num 1000 \<and>
   sources (run [Start, ReadDone (Some example_snapshot), TimerFire 1, ReadDone None] init) = [1] \<and>
   download_rate \<lparr>totalRxBytes = Num 4000, totalTxBytes = Num 2000\<rparr>
     (run [Start, ReadDone (Some example_snapshot), TimerFire 1, ReadDone None] init) = Num 1000"
proof -
  define s1 where "s1 = run [Start, ReadDone (Some example_snapshot), TimerFire 1] init"
  define st where "st = \<lparr>totalRxBytes = Num 4000, totalTxBytes = Num 2000\<rparr>"
  have s: "s1 =
     init\<lparr>previousRxBytes := Num 1000, previousTxBytes := Num 2000, updateTimer := Some 1,
          label_text := down_arrow @ '' 0.0 B/s '' @ up_arrow @ '' 0.0 B/s'', sources := [1],
          next_source := 2, in_flight := 1\<rparr>"
    unfolding s1_def example_snapshot_def by code_simp
  have f: "0 < in_flight s1" "previousRxBytes s1 = Num 1000" "sources s1 = [1]"
    by (simp_all add: s)
  have d: "download_rate st s1 = Num 1000"
    unfolding s st_def by code_simp
  have r: "run [Start, ReadDone (Some example_snapshot), TimerFire 1, ReadDone None] init =
     step (ReadDone None) s1"
    by (simp add: run_def s1_def)
  note t = failed_read_keeps_baseline [of s1 st, THEN conjunct2, rule_format, OF f(1)]
  have "previousRxBytes (step (ReadDone None) s1) = previousRxBytes s1"
    using t by blast
  then have a: "previousRxBytes (step (ReadDone None) s1) = Num 1000"
    by (simp only: f(2))
  have "sources (step (ReadDone None) s1) = sources s1"
    using t by blast
  then have b: "sources (step (ReadDone None) s1) = [1]"
    by (simp only: f(3))
  have "download_rate st (step (ReadDone None) s1) = download_rate st s1"
    using t by blast
  then have c: "download_rate st (step (ReadDone None) s1) = Num 1000"
    by (simp only: d)
  from a b c show ?thesis
    unfolding r st_def by simp
qed

subsection \<open>Starting and stopping\<close>

lemma run_Nil: "run [] s = s"
  by (simp add: run_def)

lemma run_Cons: "run (e # es) s = run es (step e s)"
  by (simp add: run_def)

lemma tracked_init: "tracked init"
  by (simp add: tracked_def init_def)

lemma tracked_startUpdate: "tracked s \<Longrightarrow> updateTimer s = None \<Longrightarrow> tracked (startUpdate s)"
  by (simp add: tracked_def startUpdate_def updateSpeed_begin_def timeout_add_seconds_def)

lemma tracked_stopUpdate:
  "tracked s \<Longrightarrow> tracked (stopUpdate s) \<and> updateTimer (stopUpdate s) = None \<and> sources (stopUpdate s) = []"
  by (auto simp: tracked_def stopUpdate_def source_remove_def split: option.splits)

lemma tracked_step:
  assumes "tracked s" and "e = Start \<longrightarrow> updateTimer s = None"
  shows "tracked (step e s)"
proof (cases e)
  case Start
  with assms show ?thesis by (simp add: step_def tracked_startUpdate)
next
  case Stop
  with assms show ?thesis by (simp add: step_def tracked_stopUpdate)
next
  case (TimerFire t)
  with assms(1) show ?thesis
    by (simp add: step_def timer_callback_def updateSpeed_begin_def tracked_def)
next
  case (ReadDone c)
  with assms(1) show ?thesis
    by (simp add: step_def tracked_def updateSpeed_resume_fields)
qed

lemma tracked_run: "tracked s \<Longrightarrow> disciplined es s \<Longrightarrow> tracked (run es s)"
proof (induction es arbitrary: s)
  case Nil
  then show ?case by (simp add: run_Nil)
next
  case (Cons e es)
  from Cons.prems have "tracked (step e s)" by (simp add: tracked_step)
  moreover from Cons.prems have "disciplined es (step e s)" by simp
  ultimately show ?case using Cons.IH by (simp add: run_Cons)
qed

lemma tracked_sources: "tracked s \<Longrightarrow> length (sources s) \<le> 1"
  by (simp add: tracked_def split: option.splits)

text \<open>
  Claim C8, as amended. As long as \<^verbatim>\<open>startUpdate\<close> is called only while the indicator
  holds no timer, at most one timeout source is attached in every reachable state, and a
  subsequent \<^verbatim>\<open>stopUpdate\<close> leaves none.
\<close>

theorem single_start_keeps_one_timer:
  assumes "tracked s" and "disciplined es s"
  shows "tracked (run es s) \<and> length (sources (run es s)) \<le> 1 \<and>
         sources (stopUpdate (run es s)) = [] \<and> updateTimer (stopUpdate (run es s)) = None"
  using tracked_run [OF assms] tracked_sources tracked_stopUpdate by blast

theorem single_start_keeps_one_timer_witness:
  "tracked init \<and> disciplined [Start, TimerFire 1, Stop, Start, TimerFire 2] init \<and>
   sources (run [Start, TimerFire 1, Stop, Start, TimerFire 2] init) = [2] \<and>
   sources (stopUpdate (run [Start, TimerFire 1, Stop, Start, TimerFire 2] init)) = []"
proof -
  have d: "disciplined [Start, TimerFire 1, Stop, Start, TimerFire 2] init"
    by code_simp
  have s: "sources (run [Start, TimerFire 1, Stop, Start, TimerFire 2] init) = [2]"
    by code_simp
  from single_start_keeps_one_timer [OF tracked_init d] s tracked_init d
  show ?thesis by blast
qed

text \<open>
  Claim C8, as stated, fails: \<^verbatim>\<open>startUpdate\<close> overwrites the handle without removing the
  source it names. After two calls two sources are attached, and \<^verbatim>\<open>stopUpdate\<close> removes
  only the second.
\<close>

theorem double_start_leaks_timer_counterexample:
  "sources (run [Start, Start] init) = [1, 2] \<and>
   updateTimer (run [Start, Start] init) = Some 2 \<and>
   sources (run [Start, Start, Stop] init) = [1] \<and>
   updateTimer (run [Start, Start, Stop] init) = None"
  by code_simp

text \<open>
  Claim C10, as amended. \<^verbatim>\<open>stopUpdate\<close> has no failing branch (removing a source and
  assigning \<^verbatim>\<open>null\<close> do not throw); calling it twice gives the state of calling it once,
  and on an indicator that was never started it changes nothing. No source is attached
  after either call when the handle accounted for the attached sources before the call,
  which is so in every state reached from a new indicator by events in which
  \<^verbatim>\<open>startUpdate\<close> is only called while no timer is held.
\<close>

theorem stopUpdate_idempotent:
  "stopUpdate (stopUpdate s) = stopUpdate s \<and>
   stopUpdate init = init \<and>
   (tracked s \<longrightarrow>
      updateTimer (stopUpdate s) = None \<and> sources (stopUpdate s) = [] \<and>
      updateTimer (stopUpdate (stopUpdate s)) = None \<and> sources (stopUpdate (stopUpdate s)) = []) \<and>
   (disciplined es init \<longrightarrow>
      sources (stopUpdate (run es init)) = [] \<and>
      sources (stopUpdate (stopUpdate (run es init))) = [])"
proof -
  have a: "stopUpdate (stopUpdate s) = stopUpdate s" for s
    by (simp add: stopUpdate_def source_remove_def split: option.splits)
  have b: "stopUpdate init = init"
    by (simp add: stopUpdate_def init_def)
  have c: "sources (stopUpdate (run es init)) = [] \<and>
      sources (stopUpdate (stopUpdate (run es init))) = []"
    if "disciplined es init"
    using tracked_stopUpdate [OF tracked_run [OF tracked_init that]] by (simp add: a)
  from a [of s] b c tracked_stopUpdate [of s] show ?thesis by simp
qed

theorem stopUpdate_idempotent_witness:
  "tracked (startUpdate init) \<and>
   disciplined [Start, Stop] init \<and>
   sources (startUpdate init) = [1] \<and>
   sources (stopUpdate (startUpdate init)) = [] \<and>
   sources (stopUpdate (stopUpdate (startUpdate init))) = [] \<and>
   sources (stopUpdate (stopUpdate (run [Start, Stop] init))) = [] \<and>
   stopUpdate init = init"
proof -
  have t: "tracked (startUpdate init)"
    by (rule tracked_startUpdate [OF tracked_init]) (simp add: init_def)
  have d: "disciplined [Start, Stop] init"
    by code_simp
  have s: "sources (startUpdate init) = [1]"
    by code_simp
  from stopUpdate_idempotent [of "startUpdate init" "[Start, Stop]"] t d s show ?thesis by blast
qed

text \<open>
  Claim C10, as stated, fails: after two calls of \<^verbatim>\<open>startUpdate\<close>, two calls of
  \<^verbatim>\<open>stopUpdate\<close> in a row leave the first source attached.
\<close>

theorem double_stop_leaves_leaked_timer_counterexample:
  "sources (run [Start, Start, Stop, Stop] init) = [1] \<and>
   updateTimer (run [Start, Start, Stop, Stop] init) = None \<and>
   in_flight (step (TimerFire 1) (run [Start, Start, Stop, Stop] init)) =
     in_flight (run [Start, Start, Stop, Stop] init) + 1"
  by code_simp

lemma stopped_step:
  assumes "updateTimer q = None" "sources q = []" "in_flight q = 0" "e \<noteq> Start"
  shows "step e q = q"
  using assms by (cases e) (simp_all add: step_def stopUpdate_def)

lemma stopped_run:
  assumes "updateTimer q = None" "sources q = []" "in_flight q = 0" "Start \<notin> set es"
  shows "run es q = q"
  using assms(4)
proof (induction es)
  case Nil
  show ?case by (simp add: run_Nil)
next
  case (Cons e es)
  then have "e \<noteq> Start" by auto
  then have "step e q = q" by (rule stopped_step [OF assms(1-3)])
  with Cons show ?case by (simp add: run_Cons)
qed

lemma in_flight_stopUpdate: "in_flight (stopUpdate s) = in_flight s"
  by (simp add: stopUpdate_def source_remove_def split: option.splits)

text \<open>
  Claim C9, as amended. After \<^verbatim>\<open>stopUpdate\<close> the timeout source that the handle named no
  longer fires. When the handle accounted for the attached sources, no timeout source
  fires at all, and if moreover no read is in flight nothing changes the indicator until
  it is started again. In every state, a read that is in flight when \<^verbatim>\<open>stopUpdate\<close> is
  called is not suppressed: its completion stores the totals it read and sets the label.
\<close>

theorem stop_does_not_cancel_read_in_flight:
  "(updateTimer s = Some t \<and> t \<noteq> 0 \<longrightarrow> step (TimerFire t) (stopUpdate s) = stopUpdate s) \<and>
   (tracked s \<longrightarrow> step (TimerFire u) (stopUpdate s) = stopUpdate s) \<and>
   (tracked s \<and> in_flight s = 0 \<and> Start \<notin> set es \<longrightarrow> run es (stopUpdate s) = stopUpdate s) \<and>
   (0 < in_flight s \<and> readNetworkStats c = Some st \<longrightarrow>
      label_text (step (ReadDone c) (stopUpdate s)) =
        down_arrow @ '' '' @ formatSpeedValue (download_rate st s) @ '' '' @
        up_arrow @ '' '' @ formatSpeedValue (upload_rate st s) \<and>
      previousRxBytes (step (ReadDone c) (stopUpdate s)) = totalRxBytes st \<and>
      previousTxBytes (step (ReadDone c) (stopUpdate s)) = totalTxBytes st)"
proof -
  have h: "step (TimerFire t) (stopUpdate s) = stopUpdate s" if "updateTimer s = Some t" "t \<noteq> 0"
    using that by (simp add: step_def stopUpdate_def source_remove_def)
  have a: "step (TimerFire u) (stopUpdate s) = stopUpdate s" if "tracked s"
    using tracked_stopUpdate [OF that] by (simp add: step_def)
  have b: "run es (stopUpdate s) = stopUpdate s" if "tracked s" "in_flight s = 0" "Start \<notin> set es"
    using tracked_stopUpdate [OF that(1)] that(2,3)
    by (intro stopped_run) (simp_all add: in_flight_stopUpdate)
  have r: "download_rate st (stopUpdate s\<lparr>in_flight := n\<rparr>) = download_rate st s"
      "upload_rate st (stopUpdate s\<lparr>in_flight := n\<rparr>) = upload_rate st s" for n
    by (simp_all add: download_rate_def upload_rate_def rxRate_def txRate_def init_previous_def
        stopUpdate_def source_remove_def split: option.splits)
  have c: "label_text (step (ReadDone c) (stopUpdate s)) =
              down_arrow @ '' '' @ formatSpeedValue (download_rate st s) @ '' '' @
              up_arrow @ '' '' @ formatSpeedValue (upload_rate st s) \<and>
            previousRxBytes (step (ReadDone c) (stopUpdate s)) = totalRxBytes st \<and>
            previousTxBytes (step (ReadDone c) (stopUpdate s)) = totalTxBytes st"
    if "0 < in_flight s" "readNetworkStats c = Some st"
    using that by (simp add: step_def in_flight_stopUpdate updateSpeed_resume_fields r)
  from h a b c show ?thesis by blast
qed

theorem stop_does_not_cancel_read_in_flight_witness:
  "tracked (startUpdate init) \<and>
   updateTimer (run [Start, Start] init) = Some 2 \<and>
   step (TimerFire 2) (stopUpdate (run [Start, Start] init)) = stopUpdate (run [Start, Start] init) \<and>
   step (TimerFire 1) (stopUpdate (startUpdate init)) = stopUpdate (startUpdate init) \<and>
   label_text (step (ReadDone (Some example_snapshot)) (stopUpdate (startUpdate init))) =
     down_arrow @ '' 0.0 B/s '' @ up_arrow @ '' 0.0 B/s'' \<and>
   previousRxBytes (step (ReadDone (Some example_snapshot)) (stopUpdate (startUpdate init))) = Num 1000"
proof -
  let ?st = "\<lparr>totalRxBytes = Num 1000, totalTxBytes = Num 2000\<rparr>"
  have t: "tracked (startUpdate init)"
    by (rule tracked_startUpdate [OF tracked_init]) (simp add: init_def)
  have f: "0 < in_flight (startUpdate init)"
    by (simp add: startUpdate_def updateSpeed_begin_def timeout_add_seconds_def)
  have r: "readNetworkStats (Some example_snapshot) = Some ?st"
    by code_simp
  have l: "down_arrow @ '' '' @ formatSpeedValue (download_rate ?st (startUpdate init))
      @ '' '' @ up_arrow @ '' '' @ formatSpeedValue (upload_rate ?st (startUpdate init))
      = down_arrow @ '' 0.0 B/s '' @ up_arrow @ '' 0.0 B/s''"
    by code_simp
  have u: "updateTimer (run [Start, Start] init) = Some 2"
    by code_simp
  note w = stop_does_not_cancel_read_in_flight [of "startUpdate init" 1 1 "[]" "Some example_snapshot" ?st]
  note v = stop_does_not_cancel_read_in_flight [of "run [Start, Start] init" 2 1 "[]" "Some example_snapshot" ?st]
  from v u have d: "step (TimerFire 2) (stopUpdate (run [Start, Start] init)) = stopUpdate (run [Start, Start] init)"
    by simp
  from w f r have "label_text (step (ReadDone (Some example_snapshot)) (stopUpdate (startUpdate init))) =
      down_arrow @ '' '' @ formatSpeedValue (download_rate ?st (startUpdate init))
      @ '' '' @ up_arrow @ '' '' @ formatSpeedValue (upload_rate ?st (startUpdate init))"
    by blast
  then have a: "label_text (step (ReadDone (Some example_snapshot)) (stopUpdate (startUpdate init))) =
      down_arrow @ '' 0.0 B/s '' @ up_arrow @ '' 0.0 B/s''"
    by (simp only: l)
  from w f r have b: "previousRxBytes (step (ReadDone (Some example_snapshot)) (stopUpdate (startUpdate init)))
      = totalRxBytes ?st"
    by blast
  from w t have c: "step (TimerFire 1) (stopUpdate (startUpdate init)) = stopUpdate (startUpdate init)"
    by blast
  from t u d a b c show ?thesis by simp
qed

text \<open>
  Claim C9, as stated, fails: the read issued by \<^verbatim>\<open>startUpdate\<close> completes after
  \<^verbatim>\<open>stopUpdate\<close> and still changes the label and the stored previous totals.
\<close>

theorem read_in_flight_updates_after_stop_counterexample:
  "label_text (run [Start, Stop] init) = down_arrow @ '' 0 B/s '' @ up_arrow @ '' 0 B/s'' \<and>
   previousRxBytes (run [Start, Stop] init) = Num 0 \<and>
   label_text (run [Start, Stop, ReadDone (Some example_snapshot)] init) =
     down_arrow @ '' 0.0 B/s '' @ up_arrow @ '' 0.0 B/s'' \<and>
   previousRxBytes (run [Start, Stop, ReadDone (Some example_snapshot)] init) = Num 1000 \<and>
   previousTxBytes (run [Start, Stop, ReadDone (Some example_snapshot)] init) = Num 2000"
  by code_simp

subsection \<open>The parser\<close>

lemma split_on_nonempty: "split_on c s \<noteq> []"
  by (induction s) (auto split: list.splits)

lemma hd_split_on: "hd (split_on c s) = takeWhile (\<lambda>x. x \<noteq> c) s"
proof (induction s)
  case Nil
  show ?case by simp
next
  case (Cons x xs)
  then show ?case
    using split_on_nonempty [of c xs] by (auto split: list.splits)
qed

lemma split_ws_nonempty: "split_ws s \<noteq> []"
  by (subst split_ws.simps) (simp add: Let_def)

lemma prefix_takeWhile:
  "\<forall>c \<in> set p. Q c \<Longrightarrow> prefix p (takeWhile Q x) \<longleftrightarrow> prefix p x"
proof
  assume "prefix p (takeWhile Q x)"
  moreover have "prefix (takeWhile Q x) x"
    by (metis prefixI takeWhile_dropWhile_id)
  ultimately show "prefix p x" by (rule prefix_order.trans)
next
  assume a: "\<forall>c \<in> set p. Q c" and "prefix p x"
  then obtain r where "x = p @ r" by (auto elim: prefixE)
  with a show "prefix p (takeWhile Q x)"
    by (simp add: takeWhile_append2)
qed

lemma prefix_strip_end:
  assumes "\<forall>c \<in> set p. \<not> P c"
  shows "prefix p (rev (dropWhile P (rev x))) \<longleftrightarrow> prefix p x"
proof
  assume "prefix p (rev (dropWhile P (rev x)))"
  moreover have "prefix (rev (dropWhile P (rev x))) x"
  proof -
    have "rev x = takeWhile P (rev x) @ dropWhile P (rev x)" by simp
    then have "x = rev (dropWhile P (rev x)) @ rev (takeWhile P (rev x))"
      by (metis rev_append rev_rev_ident)
    then show ?thesis by (metis prefixI)
  qed
  ultimately show "prefix p x" by (rule prefix_order.trans)
next
  assume "prefix p x"
  then obtain r where x: "x = p @ r" by (auto elim: prefixE)
  show "prefix p (rev (dropWhile P (rev x)))"
  proof (cases "p = []")
    case True
    then show ?thesis by simp
  next
    case False
    then have "\<not> P (last p)" using assms by simp
    then have "dropWhile P (rev p) = rev p"
      using False by (cases p rule: rev_cases) simp_all
    then have "dropWhile P (rev r @ rev p) =
        (if \<forall>c \<in> set (rev r). P c then rev p else dropWhile P (rev r) @ rev p)"
      by (auto simp: dropWhile_append)
    then show ?thesis
      by (auto simp: x)
  qed
qed

lemma dropWhile_takeWhile_commute:
  "\<forall>c. P c \<longrightarrow> Q c \<Longrightarrow> dropWhile P (takeWhile Q x) = takeWhile Q (dropWhile P x)"
  by (induction x) auto

lemma colon_not_ws: "is_ws c \<Longrightarrow> c \<noteq> CHR '':''"
  by (auto simp: is_ws_def)

lemma prefix_iface:
  assumes "\<forall>c \<in> set p. \<not> is_ws c \<and> c \<noteq> CHR '':''"
  shows "prefix p (hd (split_on (CHR '':'') (trim line))) \<longleftrightarrow> prefix p (dropWhile is_ws line)"
    and "prefix p (interface_name line) \<longleftrightarrow> prefix p (dropWhile is_ws line)"
proof -
  have nc: "\<forall>c \<in> set p. c \<noteq> CHR '':''" and nw: "\<forall>c \<in> set p. \<not> is_ws c"
    using assms by auto
  show "prefix p (hd (split_on (CHR '':'') (trim line))) \<longleftrightarrow> prefix p (dropWhile is_ws line)"
    unfolding hd_split_on trim_def
    by (simp only: prefix_takeWhile [OF nc] prefix_strip_end [OF nw])
  have "dropWhile is_ws (takeWhile (\<lambda>c. c \<noteq> CHR '':'') line) =
      takeWhile (\<lambda>c. c \<noteq> CHR '':'') (dropWhile is_ws line)"
    by (rule dropWhile_takeWhile_commute) (simp add: colon_not_ws)
  then show "prefix p (interface_name line) \<longleftrightarrow> prefix p (dropWhile is_ws line)"
    unfolding interface_name_def trim_def
    by (simp only: prefix_takeWhile [OF nc] prefix_strip_end [OF nw])
qed

lemma ignore_prefix_chars:
  "p \<in> set NETWORK_INTERFACES_TO_IGNORE \<Longrightarrow> \<forall>c \<in> set p. \<not> is_ws c \<and> c \<noteq> CHR '':''"
  by (auto simp: NETWORK_INTERFACES_TO_IGNORE_def is_ws_def)

lemma ignored_iface:
  "isIgnoredInterface (hd (split_on (CHR '':'') (trim line))) = isIgnoredInterface (interface_name line)"
proof -
  have "prefix p (hd (split_on (CHR '':'') (trim line))) \<longleftrightarrow> prefix p (interface_name line)"
    if "p \<in> set NETWORK_INTERFACES_TO_IGNORE" for p
    using prefix_iface(1) [OF ignore_prefix_chars [OF that], of line]
      prefix_iface(2) [OF ignore_prefix_chars [OF that], of line]
    by (rule trans [OF _ sym])
  then show ?thesis
    unfolding isIgnoredInterface_def list_ex_iff by blast
qed

lemma digit_not_ws: "is_digit c \<Longrightarrow> \<not> is_ws c"
  by (auto simp: is_digit_def is_ws_def)

lemma digit_not_sign: "is_digit c \<Longrightarrow> c \<noteq> CHR ''-'' \<and> c \<noteq> CHR ''+''"
  by (auto simp: is_digit_def)

lemma parseInt10_numeric:
  assumes "numeric f"
  shows "parseInt10 f = Num (of_int (digits_val f))"
proof -
  obtain c cs where f: "f = c # cs" using assms by (cases f) (auto simp: numeric_def)
  have d: "is_digit c" "list_all is_digit f" using assms f by (auto simp: numeric_def)
  have 1: "dropWhile is_ws f = f" using d(1) f by (simp add: digit_not_ws)
  have 2: "takeWhile is_digit f = f" using d(2) by (simp add: list_all_iff)
  have 3: "hd f \<noteq> CHR ''-''" "hd f \<noteq> CHR ''+''" using d(1) f digit_not_sign by auto
  show ?thesis
    unfolding parseInt10_def Let_def 1 using 2 3 f by simp
qed

lemma parse_line_ignored:
  "isIgnoredInterface (interface_name line) \<Longrightarrow> parse_line line = None"
  by (simp add: parse_line_def Let_def ignored_iface)

lemma parse_line_blank: "trim line = [] \<Longrightarrow> parse_line line = None"
  by (simp add: parse_line_def)

lemma parse_line_Some:
  assumes "parse_line line = Some (rx, tx)"
  shows "rx = element (map parseInt10 (line_fields line)) 0"
    and "tx = element (map parseInt10 (line_fields line)) 8"
  using assms
  by (auto simp: parse_line_def Let_def line_fields_def element_def split: if_splits)

lemma parse_line_wellformed:
  assumes "wellformed_line line" "counted line"
  shows "parse_line line =
    Some (Some (Num (of_int (rx_bytes line))), Some (Num (of_int (tx_bytes line))))"
proof -
  from assms(2) have ne: "trim line \<noteq> []" and ni: "\<not> isIgnoredInterface (interface_name line)"
    by (simp_all add: counted_def)
  from assms(1) ne obtain name data where
    sp: "split_on (CHR '':'') (trim line) = [name, data]"
    and len: "9 \<le> length (split_ws (trim data))"
    and num: "list_all numeric (split_ws (trim data))"
    by (auto simp: wellformed_line_def Let_def split: list.splits)
  have lf: "line_fields line = split_ws (trim data)"
    by (simp add: line_fields_def sp)
  have dne: "data \<noteq> []"
  proof
    assume "data = []"
    then have "split_ws (trim data) = [[]]"
      by (subst split_ws.simps) (simp add: trim_def)
    with len show False by simp
  qed
  have l0: "0 < length (split_ws (trim data))" and l8: "8 < length (split_ws (trim data))"
    using len by linarith+
  have n0: "numeric (line_fields line ! 0)" and n8: "numeric (line_fields line ! 8)"
    using num l0 l8 unfolding lf list_all_length by blast+
  have l0': "0 < length (line_fields line)" and l8': "8 < length (line_fields line)"
    using l0 l8 by (simp_all only: lf)
  have e0: "element (map parseInt10 (line_fields line)) 0 = Some (Num (of_int (rx_bytes line)))"
    using l0' by (simp add: element_def rx_bytes_def parseInt10_numeric [OF n0])
  have e8: "element (map parseInt10 (line_fields line)) 8 = Some (Num (of_int (tx_bytes line)))"
    using l8' by (simp add: element_def tx_bytes_def parseInt10_numeric [OF n8])
  have ni': "\<not> isIgnoredInterface name"
    using ni ignored_iface [of line] by (simp add: sp)
  have "parse_line line =
      Some (element (map parseInt10 (split_ws (trim data))) 0,
            element (map parseInt10 (split_ws (trim data))) 8)"
    using ne dne ni' by (simp add: parse_line_def Let_def sp element_def)
  then show ?thesis
    using e0 e8 by (simp only: lf)
qed

lemma accumulate_skip: "parse_line line = None \<Longrightarrow> accumulate totals line = totals"
  by (simp add: accumulate_def)

lemma foldl_accumulate_wellformed:
  assumes "list_all wellformed_line ls"
  shows "foldl accumulate (Num a, Num b) ls =
     (Num (a + of_int (sum_list (map rx_bytes (filter counted ls)))),
      Num (b + of_int (sum_list (map tx_bytes (filter counted ls)))))"
  using assms
proof (induction ls arbitrary: a b)
  case Nil
  show ?case by simp
next
  case (Cons l ls)
  then have wl: "wellformed_line l" and wls: "list_all wellformed_line ls" by simp_all
  show ?case
  proof (cases "counted l")
    case True
    have "accumulate (Num a, Num b) l =
        (Num (a + of_int (rx_bytes l)), Num (b + of_int (tx_bytes l)))"
      by (simp add: accumulate_def parse_line_wellformed [OF wl True])
    then show ?thesis
      using Cons.IH [OF wls] True by (simp add: add.assoc)
  next
    case False
    then have "parse_line l = None"
      using parse_line_blank parse_line_ignored by (auto simp: counted_def)
    then have "accumulate (Num a, Num b) l = (Num a, Num b)"
      by (rule accumulate_skip)
    then show ?thesis
      using Cons.IH [OF wls] False by simp
  qed
qed

text \<open>
  Claim C7. A line whose trimmed interface name starts with one of the ignored prefixes
  leaves the totals as they are, whatever else the line contains. For a well-formed
  snapshot the read resolves with the sums of the first and of the ninth field over the
  non-blank lines whose interface is not ignored.
\<close>

theorem ignored_interfaces_contribute_nothing:
  "(isIgnoredInterface (interface_name line) \<longrightarrow> accumulate totals line = totals) \<and>
   (wellformed_snapshot contents \<longrightarrow>
      readNetworkStats (Some contents) =
        Some \<lparr>totalRxBytes = Num (of_int (sum_list (map rx_bytes (filter counted (data_lines contents))))),
              totalTxBytes = Num (of_int (sum_list (map tx_bytes (filter counted (data_lines contents)))))\<rparr>)"
proof -
  have a: "accumulate totals line = totals" if "isIgnoredInterface (interface_name line)"
    using that by (simp add: accumulate_skip parse_line_ignored)
  have b: "readNetworkStats (Some contents) =
        Some \<lparr>totalRxBytes = Num (of_int (sum_list (map rx_bytes (filter counted (data_lines contents))))),
              totalTxBytes = Num (of_int (sum_list (map tx_bytes (filter counted (data_lines contents)))))\<rparr>"
    if "wellformed_snapshot contents"
    using foldl_accumulate_wellformed [OF that [unfolded wellformed_snapshot_def], of 0 0]
    by (simp add: readNetworkStats_def Let_def data_lines_def)
  from a b show ?thesis by blast
qed


theorem ignored_interfaces_contribute_nothing_witness:
  "isIgnoredInterface (interface_name ''    lo: 5555 1 0 0 0 0 0 0 7777 1 0 0 0 0 0 0'') \<and>
   accumulate (Num 1, Num 2) ''    lo: 5555 1 0 0 0 0 0 0 7777 1 0 0 0 0 0 0'' = (Num 1, Num 2) \<and>
   wellformed_snapshot example_snapshot \<and>
   readNetworkStats (Some example_snapshot) =
     Some \<lparr>totalRxBytes = Num 1000, totalTxBytes = Num 2000\<rparr>"
proof -
  have i: "isIgnoredInterface (interface_name ''    lo: 5555 1 0 0 0 0 0 0 7777 1 0 0 0 0 0 0'')"
    by code_simp
  have w: "wellformed_snapshot example_snapshot"
    by code_simp
  have r: "sum_list (map rx_bytes (filter counted (data_lines example_snapshot))) = 1000"
    by code_simp
  have t: "sum_list (map tx_bytes (filter counted (data_lines example_snapshot))) = 2000"
    by code_simp
  note inst = ignored_interfaces_contribute_nothing
    [of "''    lo: 5555 1 0 0 0 0 0 0 7777 1 0 0 0 0 0 0''" "(Num 1, Num 2)" example_snapshot]
  from inst i have a: "accumulate (Num 1, Num 2) ''    lo: 5555 1 0 0 0 0 0 0 7777 1 0 0 0 0 0 0'' = (Num 1, Num 2)"
    by blast
  from inst w have "readNetworkStats (Some example_snapshot) =
        Some \<lparr>totalRxBytes = Num (of_int (sum_list (map rx_bytes (filter counted (data_lines example_snapshot))))),
              totalTxBytes = Num (of_int (sum_list (map tx_bytes (filter counted (data_lines example_snapshot)))))\<rparr>"
    by blast
  then have b: "readNetworkStats (Some example_snapshot) =
     Some \<lparr>totalRxBytes = Num 1000, totalTxBytes = Num 2000\<rparr>"
    by (simp only: r t) simp
  from i a w b show ?thesis by blast
qed


lemma foldl_accumulate_NaN:
  "fst acc = NaN \<Longrightarrow> fst (foldl accumulate acc ls) = NaN"
  "snd acc = NaN \<Longrightarrow> snd (foldl accumulate acc ls) = NaN"
proof (induction ls arbitrary: acc)
  case Nil
  { case 1 then show ?case by simp }
  { case 2 then show ?case by simp }
next
  case (Cons l ls)
  { case 1
    then have "fst (accumulate acc l) = NaN"
      by (auto simp: accumulate_def split: option.splits)
    then show ?case using Cons.IH(1) by simp }
  { case 2
    then have "snd (accumulate acc l) = NaN"
      by (cases "snd acc"; auto simp: accumulate_def split: option.splits)
    then show ?case using Cons.IH(2) by simp }
qed

lemma js_add_NaN_right: "js_add x NaN = NaN"
  by (cases x) simp_all

lemma foldl_accumulate_bad_line:
  assumes "l \<in> set ls" "parse_line l = Some (rx, tx)"
  shows "to_number rx = NaN \<Longrightarrow> fst (foldl accumulate acc ls) = NaN"
    and "to_number tx = NaN \<Longrightarrow> snd (foldl accumulate acc ls) = NaN"
  using assms(1)
proof (induction ls arbitrary: acc)
  case Nil
  { case 1 then show ?case by simp }
  { case 2 then show ?case by simp }
next
  case (Cons x xs)
  { case 1
    show ?case
    proof (cases "x = l")
      case True
      with 1 assms(2) have "fst (accumulate acc x) = NaN"
        by (simp add: accumulate_def js_add_NaN_right)
      then show ?thesis by (simp add: foldl_accumulate_NaN)
    next
      case False
      with 1 have "l \<in> set xs" by simp
      with Cons.IH(1) 1 show ?thesis by simp
    qed }
  { case 2
    show ?case
    proof (cases "x = l")
      case True
      with 2 assms(2) have "snd (accumulate acc x) = NaN"
        by (simp add: accumulate_def js_add_NaN_right)
      then show ?thesis by (simp add: foldl_accumulate_NaN)
    next
      case False
      with 2 have "l \<in> set xs" by simp
      with Cons.IH(2) 2 show ?thesis by simp
    qed }
qed

lemma upload_rate_NaN: "totalTxBytes st = NaN \<Longrightarrow> upload_rate st s = NaN"
  by (simp add: upload_rate_def txRate_def)

lemma download_rate_NaN: "totalRxBytes st = NaN \<Longrightarrow> download_rate st s = NaN"
  by (simp add: download_rate_def rxRate_def)

lemma foldl_accumulate_columns:
  "foldl accumulate acc ls =
     (foldl js_add (fst acc)
        (map fst (map (\<lambda>(rx, tx). (to_number rx, to_number tx)) (List.map_filter parse_line ls))),
      foldl js_add (snd acc)
        (map snd (map (\<lambda>(rx, tx). (to_number rx, to_number tx)) (List.map_filter parse_line ls))))"
proof (induction ls arbitrary: acc)
  case Nil
  show ?case by (simp add: List.map_filter_simps)
next
  case (Cons l ls)
  show ?case
  proof (cases "parse_line l")
    case None
    then show ?thesis
      using Cons [of acc] by (simp add: List.map_filter_simps accumulate_def)
  next
    case (Some p)
    obtain rx tx where p: "p = (rx, tx)" by (cases p)
    from Some p have "accumulate acc l = (js_add (fst acc) (to_number rx), js_add (snd acc) (to_number tx))"
      by (simp add: accumulate_def)
    then show ?thesis
      using Cons [of "(js_add (fst acc) (to_number rx), js_add (snd acc) (to_number tx))"] Some p
      by (simp add: List.map_filter_simps)
  qed
qed

lemma foldl_js_add_finite:
  "list_all (\<lambda>v. v \<noteq> NaN) xs \<Longrightarrow> foldl js_add (Num a) xs = Num (a + sum_list (map value_of xs))"
proof (induction xs arbitrary: a)
  case Nil
  show ?case by simp
next
  case (Cons x xs)
  then obtain b where x: "x = Num b" by (cases x) auto
  from Cons.prems have "list_all (\<lambda>v. v \<noteq> NaN) xs" by simp
  from Cons.IH [OF this, of "a + b"] show ?case
    by (simp add: x add.assoc)
qed

lemma parse_line_filter:
  "parse_line l \<noteq> None \<longleftrightarrow>
     (trim l \<noteq> [] \<and> (\<exists>d. element (split_on (CHR '':'') (trim l)) 1 = Some d \<and> d \<noteq> []) \<and>
      \<not> isIgnoredInterface (interface_name l))"
  by (auto simp: parse_line_def Let_def ignored_iface)

text \<open>
  Claim C2, as amended. No contents make the read fail: the promise resolves, and each
  total is the repeated \<^verbatim>\<open>+=\<close> of its own column over the data lines that pass the filter
  (non-blank, a non-empty data portion between the first and the second colon, interface
  not ignored). For such a line, an unparseable first field makes the rx total NaN, and
  fewer than nine fields or an unparseable ninth field make the tx total NaN. A total
  whose column has no NaN is the sum of that column, whatever the other column holds. The
  sample is used: the rate of the NaN direction is NaN and NaN becomes the stored previous
  total. A line without a colon or with an empty data portion, such as \<^verbatim>\<open>eth0:\<close>, is
  skipped and adds nothing.
\<close>

theorem malformed_line_gives_NaN_total:
  "\<exists>st. readNetworkStats (Some contents) = Some st \<and>
     totalRxBytes st = js_sum (map fst (contributions contents)) \<and>
     totalTxBytes st = js_sum (map snd (contributions contents)) \<and>
     (list_all (\<lambda>v. v \<noteq> NaN) (map fst (contributions contents)) \<longrightarrow>
        totalRxBytes st = Num (sum_list (map value_of (map fst (contributions contents))))) \<and>
     (list_all (\<lambda>v. v \<noteq> NaN) (map snd (contributions contents)) \<longrightarrow>
        totalTxBytes st = Num (sum_list (map value_of (map snd (contributions contents))))) \<and>
     (parse_line l \<noteq> None \<longleftrightarrow>
        (trim l \<noteq> [] \<and> (\<exists>d. element (split_on (CHR '':'') (trim l)) 1 = Some d \<and> d \<noteq> []) \<and>
         \<not> isIgnoredInterface (interface_name l))) \<and>
     (l \<in> set (data_lines contents) \<and> parse_line l \<noteq> None \<longrightarrow>
        (parseInt10 (line_fields l ! 0) = NaN \<longrightarrow>
           totalRxBytes st = NaN \<and> download_rate st s = NaN \<and>
           previousRxBytes (updateSpeed_resume (Some st) s) = NaN) \<and>
        (length (line_fields l) < 9 \<or> parseInt10 (line_fields l ! 8) = NaN \<longrightarrow>
           totalTxBytes st = NaN \<and> upload_rate st s = NaN \<and>
           previousTxBytes (updateSpeed_resume (Some st) s) = NaN)) \<and>
     (element (split_on (CHR '':'') (trim k)) 1 = None \<or>
      element (split_on (CHR '':'') (trim k)) 1 = Some [] \<longrightarrow>
        parse_line k = None \<and> accumulate totals k = totals)"
proof -
  let ?tot = "foldl accumulate (Num 0, Num 0) (drop 2 (split_on (CHR 0x0A) contents))"
  let ?st = "\<lparr>totalRxBytes = fst ?tot, totalTxBytes = snd ?tot\<rparr>"
  have r: "readNetworkStats (Some contents) = Some ?st"
    by (simp add: readNetworkStats_def Let_def)
  have col: "totalRxBytes ?st = js_sum (map fst (contributions contents))"
      "totalTxBytes ?st = js_sum (map snd (contributions contents))"
    by (simp_all add: foldl_accumulate_columns js_sum_def contributions_def data_lines_def)
  have fin1: "totalRxBytes ?st = Num (sum_list (map value_of (map fst (contributions contents))))"
    if "list_all (\<lambda>v. v \<noteq> NaN) (map fst (contributions contents))"
    using foldl_js_add_finite [OF that, of 0] by (simp only: col js_sum_def) simp
  have fin2: "totalTxBytes ?st = Num (sum_list (map value_of (map snd (contributions contents))))"
    if "list_all (\<lambda>v. v \<noteq> NaN) (map snd (contributions contents))"
    using foldl_js_add_finite [OF that, of 0] by (simp only: col js_sum_def) simp
  have c: "previousRxBytes (updateSpeed_resume (Some ?st) s) = totalRxBytes ?st"
     "previousTxBytes (updateSpeed_resume (Some ?st) s) = totalTxBytes ?st"
    by (simp_all only: updateSpeed_resume_fields)
  have bad: "(parseInt10 (line_fields l ! 0) = NaN \<longrightarrow>
           totalRxBytes ?st = NaN \<and> download_rate ?st s = NaN \<and>
           previousRxBytes (updateSpeed_resume (Some ?st) s) = NaN) \<and>
        (length (line_fields l) < 9 \<or> parseInt10 (line_fields l ! 8) = NaN \<longrightarrow>
           totalTxBytes ?st = NaN \<and> upload_rate ?st s = NaN \<and>
           previousTxBytes (updateSpeed_resume (Some ?st) s) = NaN)"
    if m': "l \<in> set (data_lines contents)" and pl: "parse_line l \<noteq> None"
  proof -
    from pl obtain rx tx where p: "parse_line l = Some (rx, tx)" by auto
    note e = parse_line_Some [OF p]
    have m: "l \<in> set (drop 2 (split_on (CHR 0x0A) contents))"
      using m' by (simp add: data_lines_def)
    have ne: "line_fields l \<noteq> []"
      by (simp add: line_fields_def split_ws_nonempty)
    have a: "totalRxBytes ?st = NaN" if "parseInt10 (line_fields l ! 0) = NaN"
    proof -
      have "to_number rx = NaN" using that ne by (simp add: e(1) element_def)
      then show ?thesis using foldl_accumulate_bad_line(1) [OF m p] by simp
    qed
    have b: "totalTxBytes ?st = NaN"
      if "length (line_fields l) < 9 \<or> parseInt10 (line_fields l ! 8) = NaN"
    proof -
      have "to_number tx = NaN" using that by (auto simp: e(2) element_def)
      then show ?thesis using foldl_accumulate_bad_line(2) [OF m p] by simp
    qed
    have a': "totalRxBytes ?st = NaN \<and> download_rate ?st s = NaN \<and>
        previousRxBytes (updateSpeed_resume (Some ?st) s) = NaN"
      if "parseInt10 (line_fields l ! 0) = NaN"
      using a [OF that] c(1) download_rate_NaN [of ?st s] by (simp only: simp_thms)
    have b': "totalTxBytes ?st = NaN \<and> upload_rate ?st s = NaN \<and>
        previousTxBytes (updateSpeed_resume (Some ?st) s) = NaN"
      if "length (line_fields l) < 9 \<or> parseInt10 (line_fields l ! 8) = NaN"
      using b [OF that] c(2) upload_rate_NaN [of ?st s] by (simp only: simp_thms)
    from a' b' show ?thesis by blast
  qed
  have skip: "parse_line k = None \<and> accumulate totals k = totals"
    if "element (split_on (CHR '':'') (trim k)) 1 = None \<or>
        element (split_on (CHR '':'') (trim k)) 1 = Some []"
  proof -
    from that have "parse_line k = None"
      by (auto simp: parse_line_def Let_def)
    then show ?thesis by (simp add: accumulate_skip)
  qed
  show ?thesis
  proof (rule exI [of _ ?st], intro conjI)
    show "readNetworkStats (Some contents) = Some ?st" by (rule r)
    show "totalRxBytes ?st = js_sum (map fst (contributions contents))" by (rule col(1))
    show "totalTxBytes ?st = js_sum (map snd (contributions contents))" by (rule col(2))
    show "list_all (\<lambda>v. v \<noteq> NaN) (map fst (contributions contents)) \<longrightarrow>
        totalRxBytes ?st = Num (sum_list (map value_of (map fst (contributions contents))))"
      using fin1 by blast
    show "list_all (\<lambda>v. v \<noteq> NaN) (map snd (contributions contents)) \<longrightarrow>
        totalTxBytes ?st = Num (sum_list (map value_of (map snd (contributions contents))))"
      using fin2 by blast
    show "parse_line l \<noteq> None \<longleftrightarrow>
        (trim l \<noteq> [] \<and> (\<exists>d. element (split_on (CHR '':'') (trim l)) 1 = Some d \<and> d \<noteq> []) \<and>
         \<not> isIgnoredInterface (interface_name l))"
      by (rule parse_line_filter)
    show "l \<in> set (data_lines contents) \<and> parse_line l \<noteq> None \<longrightarrow>
        (parseInt10 (line_fields l ! 0) = NaN \<longrightarrow>
           totalRxBytes ?st = NaN \<and> download_rate ?st s = NaN \<and>
           previousRxBytes (updateSpeed_resume (Some ?st) s) = NaN) \<and>
        (length (line_fields l) < 9 \<or> parseInt10 (line_fields l ! 8) = NaN \<longrightarrow>
           totalTxBytes ?st = NaN \<and> upload_rate ?st s = NaN \<and>
           previousTxBytes (updateSpeed_resume (Some ?st) s) = NaN)"
      using bad by blast
    show "element (split_on (CHR '':'') (trim k)) 1 = None \<or>
      element (split_on (CHR '':'') (trim k)) 1 = Some [] \<longrightarrow>
        parse_line k = None \<and> accumulate totals k = totals"
      using skip by blast
  qed
qed

theorem malformed_line_gives_NaN_total_witness:
  "''wlan0: 100 0 0'' \<in> set (data_lines short_line_snapshot) \<and>
   parse_line ''wlan0: 100 0 0'' \<noteq> None \<and>
   length (line_fields ''wlan0: 100 0 0'') < 9 \<and>
   list_all (\<lambda>v. v \<noteq> NaN) (map fst (contributions short_line_snapshot)) \<and>
   element (split_on (CHR '':'') (trim ''eth0:'')) 1 = Some [] \<and>
   accumulate (Num 1, Num 2) ''eth0:'' = (Num 1, Num 2) \<and>
   (\<exists>st. readNetworkStats (Some short_line_snapshot) = Some st \<and>
      totalRxBytes st = Num 1100 \<and> totalTxBytes st = NaN \<and>
      upload_rate st init = NaN \<and> previousTxBytes (updateSpeed_resume (Some st) init) = NaN)"
proof -
  have m: "''wlan0: 100 0 0'' \<in> set (data_lines short_line_snapshot)"
    by code_simp
  have p: "parse_line ''wlan0: 100 0 0'' \<noteq> None"
    by code_simp
  have n: "length (line_fields ''wlan0: 100 0 0'') < 9"
    by code_simp
  have f: "list_all (\<lambda>v. v \<noteq> NaN) (map fst (contributions short_line_snapshot))"
    by code_simp
  have v: "sum_list (map value_of (map fst (contributions short_line_snapshot))) = 1100"
    by code_simp
  have e: "element (split_on (CHR '':'') (trim ''eth0:'')) 1 = Some []"
    by code_simp
  from malformed_line_gives_NaN_total
    [of short_line_snapshot "''wlan0: 100 0 0''" init "''eth0:''" "(Num 1, Num 2)"]
  obtain st where st: "readNetworkStats (Some short_line_snapshot) = Some st"
    and rx: "list_all (\<lambda>v. v \<noteq> NaN) (map fst (contributions short_line_snapshot)) \<longrightarrow>
        totalRxBytes st = Num (sum_list (map value_of (map fst (contributions short_line_snapshot))))"
    and tx: "''wlan0: 100 0 0'' \<in> set (data_lines short_line_snapshot) \<and>
        parse_line ''wlan0: 100 0 0'' \<noteq> None \<longrightarrow>
        (length (line_fields ''wlan0: 100 0 0'') < 9 \<or>
           parseInt10 (line_fields ''wlan0: 100 0 0'' ! 8) = NaN \<longrightarrow>
           totalTxBytes st = NaN \<and> upload_rate st init = NaN \<and>
           previousTxBytes (updateSpeed_resume (Some st) init) = NaN)"
    and sk: "element (split_on (CHR '':'') (trim ''eth0:'')) 1 = None \<or>
        element (split_on (CHR '':'') (trim ''eth0:'')) 1 = Some [] \<longrightarrow>
        parse_line ''eth0:'' = None \<and> accumulate (Num 1, Num 2) ''eth0:'' = (Num 1, Num 2)"
    by blast
  from rx f have "totalRxBytes st =
      Num (sum_list (map value_of (map fst (contributions short_line_snapshot))))"
    by blast
  then have rx': "totalRxBytes st = Num 1100" by (simp only: v)
  from tx m p n have tx': "totalTxBytes st = NaN \<and> upload_rate st init = NaN \<and>
      previousTxBytes (updateSpeed_resume (Some st) init) = NaN"
    by blast
  from sk e have sk': "accumulate (Num 1, Num 2) ''eth0:'' = (Num 1, Num 2)" by blast
  from m p n f e sk' st rx' tx' show ?thesis by blast
qed

text \<open>
  Claim C2, as stated, fails: a snapshot with a line of three fields resolves with the
  rx total of all lines and the tx total NaN, and the tick shows and stores them.
\<close>

theorem malformed_line_is_aggregated_counterexample:
  "readNetworkStats (Some short_line_snapshot) =
     Some \<lparr>totalRxBytes = Num 1100, totalTxBytes = NaN\<rparr> \<and>
   label_text (updateSpeed_resume (readNetworkStats (Some short_line_snapshot)) init) =
     down_arrow @ '' 0.0 B/s '' @ up_arrow @ '' NaN B/s'' \<and>
   previousRxBytes (updateSpeed_resume (readNetworkStats (Some short_line_snapshot)) init) = Num 1100 \<and>
   previousTxBytes (updateSpeed_resume (readNetworkStats (Some short_line_snapshot)) init) = NaN"
  by code_simp

end
